theory Spec2Isabelle
  imports Main "HOL-Library.AList"
begin

section \<open>Python values, exceptions and the file handle\<close>

text \<open>
  The model follows \<^verbatim>\<open>src/pyulog/core.py\<close> as it runs under Python 3.
  A \<^verbatim>\<open>bytes\<close> object is a list of 8-bit characters, so that the same list is
  read as raw bytes (\<open>of_char\<close>) and, after \<^verbatim>\<open>_parse_string\<close>, as text.
  Every exception the code can raise is a value; a function that can raise
  returns a sum whose left injection is the exception.
\<close>

type_synonym bytes = "char list"

datatype py_exception =
    Exception string
  | StructError
  | IndexError
  | KeyError
  | ValueError
  | UnicodeDecodeError
  | RecursionError
  | OSError

text \<open>What the code prints on standard output (two warnings).\<close>

datatype printed =
    UnknownFileVersion
  | NoSubscriptionFound nat

text \<open>
  Two facts of the Python runtime that the source does not fix: how many nested
  calls of \<^verbatim>\<open>_parse_nested_type\<close> fit under the interpreter's recursion limit, and
  the builtin \<^verbatim>\<open>int\<close> on a string (\<open>None\<close> for its \<^verbatim>\<open>ValueError\<close>).
\<close>

record runtime =
  recursion_limit :: nat
  int_of_str :: "string \<Rightarrow> int option"

text \<open>A binary file opened for reading: its content and the current position.\<close>

record binary_file =
  content :: bytes
  pos :: nat

definition read :: "nat \<Rightarrow> binary_file \<Rightarrow> bytes \<times> binary_file" where
  "read n fh =
     (let data = take n (drop (pos fh) (content fh))
      in (data, fh\<lparr>pos := pos fh + length data\<rparr>))"

text \<open>\<^verbatim>\<open>seek(offset, 1)\<close>: relative to the current position; a negative
  target position raises \<^verbatim>\<open>OSError\<close>.\<close>

definition seek_cur :: "int \<Rightarrow> binary_file \<Rightarrow> py_exception + binary_file" where
  "seek_cur offset fh =
     (let target = int (pos fh) + offset
      in if target < 0 then Inl OSError else Inr (fh\<lparr>pos := nat target\<rparr>))"

definition exc_bind :: "'e + 'a \<Rightarrow> ('a \<Rightarrow> 'e + 'b) \<Rightarrow> 'e + 'b" where
  "exc_bind m f = (case m of Inl e \<Rightarrow> Inl e | Inr x \<Rightarrow> f x)"

subsection \<open>Strings\<close>

text \<open>\<^verbatim>\<open>str(cstr, 'ascii')\<close>: a byte above 127 raises.\<close>

definition parse_string :: "bytes \<Rightarrow> py_exception + string" where
  "parse_string cstr =
     (if list_all (\<lambda>c. (of_char c :: nat) < 128) cstr then Inr cstr
      else Inl UnicodeDecodeError)"

text \<open>\<^verbatim>\<open>s.split(sep)\<close> for a separator of one character: never empty.\<close>

fun split :: "char \<Rightarrow> string \<Rightarrow> string list" where
  "split sep [] = [[]]"
| "split sep (c # cs) =
     (if c = sep then [] # split sep cs
      else (case split sep cs of
              [] \<Rightarrow> [[c]]
            | w # ws \<Rightarrow> (c # w) # ws))"

text \<open>\<^verbatim>\<open>s.find(c)\<close>: the first index of the character, or -1.\<close>

fun find_char :: "char \<Rightarrow> string \<Rightarrow> int" where
  "find_char c [] = -1"
| "find_char c (x # xs) =
     (if x = c then 0
      else (let r = find_char c xs in if r < 0 then -1 else r + 1))"

text \<open>\<^verbatim>\<open>s[a:b]\<close> with Python's treatment of negative and out-of-range bounds.\<close>

definition slice :: "int \<Rightarrow> int \<Rightarrow> 'a list \<Rightarrow> 'a list" where
  "slice a b xs =
     (let n = int (length xs);
          lo = (if a < 0 then max 0 (n + a) else min a n);
          hi = (if b < 0 then max 0 (n + b) else min b n)
      in take (nat (hi - lo)) (drop (nat lo) xs))"

definition startswith :: "string \<Rightarrow> string \<Rightarrow> bool" where
  "startswith s prefix = (take (length prefix) s = prefix)"

text \<open>\<^verbatim>\<open>str(i)\<close> for a non-negative integer.\<close>

definition digit_char :: "nat \<Rightarrow> char" where
  "digit_char d = char_of (48 + d)"

function str :: "nat \<Rightarrow> string" where
  "str n = (if n < 10 then [digit_char n] else str (n div 10) @ [digit_char (n mod 10)])"
  by pat_completeness auto
termination
  by (relation "measure id") auto

declare str.simps [simp del]

subsection \<open>struct\<close>

text \<open>Little-endian unsigned value of a byte string.\<close>

fun le_uint :: "bytes \<Rightarrow> nat" where
  "le_uint [] = 0"
| "le_uint (b # bs) = of_char b + 256 * le_uint bs"

definition le_sint :: "bytes \<Rightarrow> int" where
  "le_sint bs =
     (let u = int (le_uint bs); m = (2::int) ^ (8 * length bs)
      in if 2 * u \<ge> m then u - m else u)"

text \<open>\<^verbatim>\<open>struct.Struct(fmt).unpack(data)\<close> raises \<^verbatim>\<open>struct.error\<close> unless the
  data has exactly the size of the format.\<close>

definition unpack_ubyte :: "bytes \<Rightarrow> py_exception + nat" where
  "unpack_ubyte data = (if length data = 1 then Inr (le_uint data) else Inl StructError)"

definition unpack_ushort :: "bytes \<Rightarrow> py_exception + nat" where
  "unpack_ushort data = (if length data = 2 then Inr (le_uint data) else Inl StructError)"

definition unpack_uint64 :: "bytes \<Rightarrow> py_exception + nat" where
  "unpack_uint64 data = (if length data = 8 then Inr (le_uint data) else Inl StructError)"

definition unpack_ushort_byte :: "bytes \<Rightarrow> py_exception + (nat \<times> nat)" where
  "unpack_ushort_byte data =
     (if length data = 3 then Inr (le_uint (take 2 data), le_uint (drop 2 data))
      else Inl StructError)"

text \<open>The value \<^verbatim>\<open>struct.unpack\<close> returns for one format character. A float is
  kept as its IEEE bit pattern: nothing below computes with it.\<close>

datatype py_value =
    PyInt int
  | PyFloat nat
  | PyBool bool
  | PyBytes bytes
  | PyStr string

definition calcsize :: "char \<Rightarrow> nat" where
  "calcsize fmt =
     (if fmt \<in> set ''bB?c'' then 1
      else if fmt \<in> set ''hH'' then 2
      else if fmt \<in> set ''iIf'' then 4
      else 8)"

definition struct_unpack :: "char \<Rightarrow> bytes \<Rightarrow> py_exception + py_value" where
  "struct_unpack fmt data =
     (if length data \<noteq> calcsize fmt then Inl StructError
      else if fmt \<in> set ''bhiq'' then Inr (PyInt (le_sint data))
      else if fmt \<in> set ''BHIQ'' then Inr (PyInt (int (le_uint data)))
      else if fmt \<in> set ''fd'' then Inr (PyFloat (le_uint data))
      else if fmt = CHR ''?'' then Inr (PyBool (le_uint data \<noteq> 0))
      else Inr (PyBytes data))"

section \<open>The type table\<close>

datatype np_type =
    np_int8 | np_uint8 | np_int16 | np_uint16 | np_int32 | np_uint32
  | np_int64 | np_uint64 | np_float32 | np_float64

definition UNPACK_TYPES :: "(string \<times> char \<times> nat \<times> np_type) list" where
  "UNPACK_TYPES =
     [(''int8_t'',   CHR ''b'', 1, np_int8),
      (''uint8_t'',  CHR ''B'', 1, np_uint8),
      (''int16_t'',  CHR ''h'', 2, np_int16),
      (''uint16_t'', CHR ''H'', 2, np_uint16),
      (''int32_t'',  CHR ''i'', 4, np_int32),
      (''uint32_t'', CHR ''I'', 4, np_uint32),
      (''int64_t'',  CHR ''q'', 8, np_int64),
      (''uint64_t'', CHR ''Q'', 8, np_uint64),
      (''float'',    CHR ''f'', 4, np_float32),
      (''double'',   CHR ''d'', 8, np_float64),
      (''bool'',     CHR ''?'', 1, np_int8),
      (''char'',     CHR ''c'', 1, np_int8)]"

text \<open>\<^verbatim>\<open>ULog._UNPACK_TYPES[type_str]\<close>: a missing key raises.\<close>

definition unpack_type :: "string \<Rightarrow> py_exception + (char \<times> nat \<times> np_type)" where
  "unpack_type type_str =
     (case map_of UNPACK_TYPES type_str of None \<Rightarrow> Inl KeyError | Some entry \<Rightarrow> Inr entry)"

definition get_field_size :: "string \<Rightarrow> py_exception + nat" where
  "get_field_size type_str = exc_bind (unpack_type type_str) (\<lambda>(fmt, width, numpy_type). Inr width)"

section \<open>Representations of the messages\<close>

subsection \<open>The 3 bytes message header\<close>

text \<open>\<^verbatim>\<open>_MessageHeader.initialize\<close>: the pair (msg_size, msg_type).\<close>

definition MessageHeader_initialize :: "bytes \<Rightarrow> py_exception + (nat \<times> nat)" where
  "MessageHeader_initialize data = unpack_ushort_byte data"

definition MSG_TYPE_FORMAT :: nat where "MSG_TYPE_FORMAT = of_char CHR ''F''"
definition MSG_TYPE_DATA :: nat where "MSG_TYPE_DATA = of_char CHR ''D''"
definition MSG_TYPE_INFO :: nat where "MSG_TYPE_INFO = of_char CHR ''I''"
definition MSG_TYPE_PARAMETER :: nat where "MSG_TYPE_PARAMETER = of_char CHR ''P''"
definition MSG_TYPE_ADD_LOGGED_MSG :: nat where "MSG_TYPE_ADD_LOGGED_MSG = of_char CHR ''A''"
definition MSG_TYPE_REMOVE_LOGGED_MSG :: nat where "MSG_TYPE_REMOVE_LOGGED_MSG = of_char CHR ''R''"
definition MSG_TYPE_SYNC :: nat where "MSG_TYPE_SYNC = of_char CHR ''S''"
definition MSG_TYPE_DROPOUT :: nat where "MSG_TYPE_DROPOUT = of_char CHR ''O''"
definition MSG_TYPE_LOGGING :: nat where "MSG_TYPE_LOGGING = of_char CHR ''L''"

subsection \<open>Info and parameter messages\<close>

record message_info =
  info_type :: string
  info_key :: string
  info_value :: py_value

definition MessageInfo_init :: "bytes \<Rightarrow> py_exception + message_info" where
  "MessageInfo_init data =
     exc_bind (unpack_ubyte (slice 0 1 data)) (\<lambda>key_len.
     exc_bind (parse_string (slice 1 (1 + int key_len) data)) (\<lambda>type_key.
       let type_key_split = split CHR '' '' type_key;
           type = type_key_split ! 0;
           rest = drop (1 + key_len) data
       in if length type_key_split < 2 then Inl IndexError
          else let key = type_key_split ! 1
          in if startswith type ''char[''
             then exc_bind (parse_string rest) (\<lambda>v.
                    Inr \<lparr>info_type = type, info_key = key, info_value = PyStr v\<rparr>)
             else (case map_of UNPACK_TYPES type of
                     Some (fmt, width, numpy_type) \<Rightarrow>
                       exc_bind (struct_unpack fmt rest) (\<lambda>v.
                         Inr \<lparr>info_type = type, info_key = key, info_value = v\<rparr>)
                   | None \<Rightarrow>
                       Inr \<lparr>info_type = type, info_key = key, info_value = PyBytes rest\<rparr>)))"

subsection \<open>Format messages\<close>

text \<open>A field of a format: (type, array_size, name).\<close>

type_synonym format_field = "string \<times> int \<times> string"

record message_format =
  format_name :: string
  format_fields :: "format_field list"

definition MessageFormat_extract_type :: "runtime \<Rightarrow> string \<Rightarrow> py_exception + format_field" where
  "MessageFormat_extract_type rt field_str =
     (let field_str_split = split CHR '' '' field_str;
          type_str = field_str_split ! 0
      in if length field_str_split < 2 then Inl IndexError
         else let name_str = field_str_split ! 1;
                  a_pos = find_char CHR ''['' type_str
         in if a_pos = -1 then Inr (type_str, 1, name_str)
            else let b_pos = find_char CHR '']'' type_str
            in (case int_of_str rt (slice (a_pos + 1) b_pos type_str) of
                  None \<Rightarrow> Inl ValueError
                | Some array_size \<Rightarrow> Inr (slice 0 a_pos type_str, array_size, name_str)))"

text \<open>The loop over \<^verbatim>\<open>types_str\<close>, appending to \<^verbatim>\<open>self.fields\<close>.\<close>

fun extract_types :: "runtime \<Rightarrow> string list \<Rightarrow> format_field list \<Rightarrow> py_exception + format_field list" where
  "extract_types rt [] acc = Inr acc"
| "extract_types rt (t # ts) acc =
     (if length t > 0
      then (case MessageFormat_extract_type rt t of
              Inl e \<Rightarrow> Inl e
            | Inr f \<Rightarrow> extract_types rt ts (acc @ [f]))
      else extract_types rt ts acc)"

definition MessageFormat_init :: "runtime \<Rightarrow> bytes \<Rightarrow> py_exception + message_format" where
  "MessageFormat_init rt data =
     exc_bind (parse_string data) (\<lambda>s.
       let format_arr = split CHR '':'' s
       in if length format_arr < 2 then Inl IndexError
          else exc_bind (extract_types rt (split CHR '';'' (format_arr ! 1)) []) (\<lambda>fs.
                 Inr \<lparr>format_name = format_arr ! 0, format_fields = fs\<rparr>))"

subsection \<open>Logged strings and dropouts\<close>

record message_logging =
  log_level :: nat
  log_timestamp :: nat
  log_message :: string

definition MessageLogging_init :: "bytes \<Rightarrow> py_exception + message_logging" where
  "MessageLogging_init data =
     exc_bind (unpack_ubyte (slice 0 1 data)) (\<lambda>level.
     exc_bind (unpack_uint64 (slice 1 9 data)) (\<lambda>ts.
     exc_bind (parse_string (drop 9 data)) (\<lambda>msg.
       Inr \<lparr>log_level = level, log_timestamp = ts, log_message = msg\<rparr>)))"

record message_dropout =
  duration :: nat
  dropout_timestamp :: nat

definition MessageDropout_init :: "bytes \<Rightarrow> nat \<Rightarrow> py_exception + message_dropout" where
  "MessageDropout_init data timestamp =
     exc_bind (unpack_ushort data) (\<lambda>d. Inr \<lparr>duration = d, dropout_timestamp = timestamp\<rparr>)"

subsection \<open>Subscriptions: the add-logged message and the flattening of its format\<close>

record FieldData =
  field_name :: string
  type_str :: string

text \<open>A numpy structured dtype: the named fields in order, packed.\<close>

type_synonym np_dtype_t = "(string \<times> np_type) list"

record MessageAddLogged =
  multi_id :: nat
  msg_id :: nat
  message_name :: string
  field_data :: "FieldData list"
  timestamp_idx :: int
  timestamp_offset :: nat
  buffer :: bytes
  dtype :: np_dtype_t

text \<open>
  \<^verbatim>\<open>_parse_nested_type\<close> appends to \<^verbatim>\<open>self.field_data\<close> and sets
  \<^verbatim>\<open>self.timestamp_idx\<close>: the pair of both is passed along. The first argument
  counts the nested calls the interpreter still allows; at 0 the call raises
  \<^verbatim>\<open>RecursionError\<close> (a format that contains itself). \<open>parse_fields\<close> is the loop
  over the fields of one format, \<open>parse_array\<close> the loop over the indices of an
  array of a nested type.
\<close>

function (sequential) parse_nested_type ::
      "nat \<Rightarrow> string \<Rightarrow> string \<Rightarrow> (string \<times> message_format) list
        \<Rightarrow> FieldData list \<times> int \<Rightarrow> py_exception + (FieldData list \<times> int)"
  and parse_fields ::
      "nat \<Rightarrow> string \<Rightarrow> format_field list \<Rightarrow> (string \<times> message_format) list
        \<Rightarrow> FieldData list \<times> int \<Rightarrow> py_exception + (FieldData list \<times> int)"
  and parse_array ::
      "nat \<Rightarrow> string \<Rightarrow> string \<Rightarrow> nat list \<Rightarrow> string \<Rightarrow> (string \<times> message_format) list
        \<Rightarrow> FieldData list \<times> int \<Rightarrow> py_exception + (FieldData list \<times> int)"
where
  "parse_nested_type 0 prefix_str type_name message_formats st = Inl RecursionError"
| "parse_nested_type (Suc depth) prefix_str type_name message_formats st =
     (case map_of message_formats type_name of
        None \<Rightarrow> Inl KeyError
      | Some message_format \<Rightarrow>
          parse_fields depth prefix_str (format_fields message_format) message_formats st)"
| "parse_fields depth prefix_str [] message_formats st = Inr st"
| "parse_fields depth prefix_str (f # rest) message_formats st =
     (case f of (type_name, array_size, fname) \<Rightarrow>
      if type_name \<in> set (map fst UNPACK_TYPES)
      then
        (let fd = (if array_size > 1
                   then fst st @ map (\<lambda>i. \<lparr>field_name = prefix_str @ fname @ ''['' @ str i @ '']'',
                                            type_str = type_name\<rparr>) [0..<nat array_size]
                   else fst st @ [\<lparr>field_name = prefix_str @ fname, type_str = type_name\<rparr>]);
             idx = (if prefix_str @ fname = ''timestamp'' then int (length fd) - 1 else snd st)
         in parse_fields depth prefix_str rest message_formats (fd, idx))
      else if array_size > 1
      then (case parse_array depth prefix_str fname [0..<nat array_size] type_name message_formats st of
              Inl e \<Rightarrow> Inl e
            | Inr st' \<Rightarrow> parse_fields depth prefix_str rest message_formats st')
      else (case parse_nested_type depth (prefix_str @ fname @ ''.'') type_name message_formats st of
              Inl e \<Rightarrow> Inl e
            | Inr st' \<Rightarrow> parse_fields depth prefix_str rest message_formats st'))"
| "parse_array depth prefix_str fname [] type_name message_formats st = Inr st"
| "parse_array depth prefix_str fname (i # is) type_name message_formats st =
     (case parse_nested_type depth (prefix_str @ fname @ ''['' @ str i @ ''].'') type_name
             message_formats st of
        Inl e \<Rightarrow> Inl e
      | Inr st' \<Rightarrow> parse_array depth prefix_str fname is type_name message_formats st')"
  by pat_completeness auto
termination
  by (relation "inv_image (less_than <*lex*> less_than <*lex*> less_than)
        (\<lambda>x. case x of
           Inl (d, p, t, m, s) \<Rightarrow> (d, 0::nat, 0::nat)
         | Inr (Inl (d, p, fs, m, s)) \<Rightarrow> (d, 2, length fs)
         | Inr (Inr (d, p, f, is, t, m, s)) \<Rightarrow> (d, 1, length is))") auto

text \<open>The loop of \<^verbatim>\<open>_parse_format\<close> that pops the padding fields at the end.\<close>

function remove_padding :: "FieldData list \<Rightarrow> FieldData list" where
  "remove_padding fd =
     (if length fd > 0 \<and> startswith (field_name (last fd)) ''_padding''
      then remove_padding (butlast fd)
      else fd)"
  by pat_completeness auto
termination
  by (relation "measure length") auto

declare remove_padding.simps [simp del]

definition parse_format ::
  "nat \<Rightarrow> string \<Rightarrow> (string \<times> message_format) list \<Rightarrow> py_exception + (FieldData list \<times> int)" where
  "parse_format depth name message_formats =
     exc_bind (parse_nested_type depth [] name message_formats ([], -1)) (\<lambda>(fd, idx).
       Inr (remove_padding fd, idx))"

text \<open>The loop of \<^verbatim>\<open>__init__\<close> that adds up the sizes of the fields before the
  one named \<^verbatim>\<open>timestamp\<close>.\<close>

fun timestamp_offset_loop :: "FieldData list \<Rightarrow> nat \<Rightarrow> py_exception + nat" where
  "timestamp_offset_loop [] acc = Inr acc"
| "timestamp_offset_loop (field # rest) acc =
     (if field_name field = ''timestamp'' then Inr acc
      else (case get_field_size (type_str field) of
              Inl e \<Rightarrow> Inl e
            | Inr width \<Rightarrow> timestamp_offset_loop rest (acc + width)))"

fun dtype_list_loop :: "FieldData list \<Rightarrow> np_dtype_t \<Rightarrow> py_exception + np_dtype_t" where
  "dtype_list_loop [] acc = Inr acc"
| "dtype_list_loop (field # rest) acc =
     (case unpack_type (type_str field) of
        Inl e \<Rightarrow> Inl e
      | Inr (fmt, width, numpy_type) \<Rightarrow> dtype_list_loop rest (acc @ [(field_name field, numpy_type)]))"

subsection \<open>numpy\<close>

fun np_type_size :: "np_type \<Rightarrow> nat" where
  "np_type_size np_int8 = 1"
| "np_type_size np_uint8 = 1"
| "np_type_size np_int16 = 2"
| "np_type_size np_uint16 = 2"
| "np_type_size np_int32 = 4"
| "np_type_size np_uint32 = 4"
| "np_type_size np_int64 = 8"
| "np_type_size np_uint64 = 8"
| "np_type_size np_float32 = 4"
| "np_type_size np_float64 = 8"

text \<open>\<^verbatim>\<open>dtype.itemsize\<close>: the fields are packed, so it is the sum of their sizes.
  It is the stride with which \<^verbatim>\<open>np.frombuffer\<close> cuts a buffer into records.\<close>

definition itemsize :: "np_dtype_t \<Rightarrow> nat" where
  "itemsize dt = sum_list (map (\<lambda>(name, t). np_type_size t) dt)"

text \<open>\<^verbatim>\<open>np.dtype(dtype_list)\<close>: an empty field name becomes \<^verbatim>\<open>f<position>\<close>, and a name
  that occurs twice raises \<^verbatim>\<open>ValueError\<close>. \<^verbatim>\<open>newbyteorder('<')\<close> changes nothing of
  what is modelled here.\<close>

definition np_dtype :: "np_dtype_t \<Rightarrow> py_exception + np_dtype_t" where
  "np_dtype dtype_list =
     (let named = map (\<lambda>(i, (name, t)). (if name = [] then ''f'' @ str i else name, t))
                      (enumerate 0 dtype_list)
      in if distinct (map fst named) then Inr named else Inl ValueError)"

text \<open>\<^verbatim>\<open>np.frombuffer(buffer, dtype)\<close>: the records of the buffer, each of
  \<open>itemsize\<close> bytes. It raises \<^verbatim>\<open>ValueError\<close> when the item size is zero or the
  size of the buffer is not a multiple of it.\<close>

definition np_frombuffer :: "bytes \<Rightarrow> np_dtype_t \<Rightarrow> py_exception + bytes list" where
  "np_frombuffer buf dt =
     (if itemsize dt = 0 then Inl ValueError
      else if length buf mod itemsize dt \<noteq> 0 then Inl ValueError
      else Inr (map (\<lambda>i. take (itemsize dt) (drop (i * itemsize dt) buf))
                    [0..<length buf div itemsize dt]))"

text \<open>An element of a column. A float is kept as its IEEE bit pattern.\<close>

datatype np_value =
    NpInt int
  | NpFloat32 nat
  | NpFloat64 nat

fun np_decode :: "np_type \<Rightarrow> bytes \<Rightarrow> np_value" where
  "np_decode np_int8 b = NpInt (le_sint b)"
| "np_decode np_int16 b = NpInt (le_sint b)"
| "np_decode np_int32 b = NpInt (le_sint b)"
| "np_decode np_int64 b = NpInt (le_sint b)"
| "np_decode np_uint8 b = NpInt (int (le_uint b))"
| "np_decode np_uint16 b = NpInt (int (le_uint b))"
| "np_decode np_uint32 b = NpInt (int (le_uint b))"
| "np_decode np_uint64 b = NpInt (int (le_uint b))"
| "np_decode np_float32 b = NpFloat32 (le_uint b)"
| "np_decode np_float64 b = NpFloat64 (le_uint b)"

text \<open>\<^verbatim>\<open>np_array[name]\<close> for the field at position \<open>k\<close> of the dtype.\<close>

definition np_column :: "bytes list \<Rightarrow> np_dtype_t \<Rightarrow> nat \<Rightarrow> np_value list" where
  "np_column records dt k =
     map (\<lambda>r. np_decode (snd (dt ! k))
                 (take (np_type_size (snd (dt ! k))) (drop (itemsize (take k dt)) r)))
         records"

subsection \<open>The add-logged message\<close>

definition MessageAddLogged_init ::
  "runtime \<Rightarrow> bytes \<Rightarrow> (string \<times> message_format) list \<Rightarrow> py_exception + MessageAddLogged" where
  "MessageAddLogged_init rt data message_formats =
     exc_bind (unpack_ubyte (slice 0 1 data)) (\<lambda>multi.
     exc_bind (unpack_ushort (slice 1 3 data)) (\<lambda>mid.
     exc_bind (parse_string (drop 3 data)) (\<lambda>name.
     exc_bind (parse_format (recursion_limit rt) name message_formats) (\<lambda>(fd, idx).
     exc_bind (timestamp_offset_loop fd 0) (\<lambda>t_off.
     exc_bind (dtype_list_loop fd []) (\<lambda>dtype_list.
     exc_bind (np_dtype dtype_list) (\<lambda>dt.
       Inr \<lparr>multi_id = multi, msg_id = mid, message_name = name, field_data = fd,
            timestamp_idx = idx, timestamp_offset = t_off, buffer = [], dtype = dt\<rparr>)))))))"

section \<open>The final topic data\<close>

record Data =
  data_multi_id :: nat
  data_name :: string
  data_field_data :: "FieldData list"
  data_timestamp_idx :: int
  data_data :: "(string \<times> np_value list) list"

text \<open>\<^verbatim>\<open>Data.__init__\<close>: the buffer of the subscription is cut into records of
  \<open>itemsize (dtype s)\<close> bytes, and every named field becomes a column.\<close>

definition Data_init :: "MessageAddLogged \<Rightarrow> py_exception + Data" where
  "Data_init message_add_logged_obj =
     exc_bind (np_frombuffer (buffer message_add_logged_obj) (dtype message_add_logged_obj))
       (\<lambda>np_array.
          Inr \<lparr>data_multi_id = multi_id message_add_logged_obj,
               data_name = message_name message_add_logged_obj,
               data_field_data = field_data message_add_logged_obj,
               data_timestamp_idx = timestamp_idx message_add_logged_obj,
               data_data = foldl (\<lambda>d k. AList.update (fst (dtype message_add_logged_obj ! k))
                                      (np_column np_array (dtype message_add_logged_obj) k) d)
                            [] [0..<length (dtype message_add_logged_obj)]\<rparr>)"

text \<open>Elementwise \<^verbatim>\<open>!=\<close> of numpy. On floats it follows IEEE: a NaN differs from
  everything, the two zeros are equal. A column holds values of one type only, so
  the last equation is not reached on the columns of \<open>Data_init\<close>.\<close>

definition is_nan32 :: "nat \<Rightarrow> bool" where
  "is_nan32 b = (b div 2 ^ 23 mod 256 = 255 \<and> b mod 2 ^ 23 \<noteq> 0)"

definition is_nan64 :: "nat \<Rightarrow> bool" where
  "is_nan64 b = (b div 2 ^ 52 mod 2048 = 2047 \<and> b mod 2 ^ 52 \<noteq> 0)"

fun np_ne :: "np_value \<Rightarrow> np_value \<Rightarrow> bool" where
  "np_ne (NpInt a) (NpInt b) = (a \<noteq> b)"
| "np_ne (NpFloat32 a) (NpFloat32 b) =
     (is_nan32 a \<or> is_nan32 b \<or> (a \<noteq> b \<and> \<not> (a mod 2 ^ 31 = 0 \<and> b mod 2 ^ 31 = 0)))"
| "np_ne (NpFloat64 a) (NpFloat64 b) =
     (is_nan64 a \<or> is_nan64 b \<or> (a \<noteq> b \<and> \<not> (a mod 2 ^ 63 = 0 \<and> b mod 2 ^ 63 = 0)))"
| "np_ne x y = True"

text \<open>\<^verbatim>\<open>t != 0\<close>.\<close>

fun np_ne_zero :: "np_value \<Rightarrow> bool" where
  "np_ne_zero (NpInt a) = (a \<noteq> 0)"
| "np_ne_zero (NpFloat32 a) = (a mod 2 ^ 31 \<noteq> 0)"
| "np_ne_zero (NpFloat64 a) = (a mod 2 ^ 63 \<noteq> 0)"

text \<open>\<^verbatim>\<open>a[mask]\<close> for a boolean mask of the same length.\<close>

definition np_mask :: "bool list \<Rightarrow> 'a list \<Rightarrow> 'a list" where
  "np_mask flags xs = map snd (filter fst (zip flags xs))"

text \<open>\<^verbatim>\<open>np.where(x[:-1] != x[1:])[0] + 1\<close>.\<close>

definition change_indices :: "np_value list \<Rightarrow> nat list" where
  "change_indices x =
     map (\<lambda>i. i + 1) (filter (\<lambda>i. np_ne (x ! i) (x ! (i + 1))) [0..<length x - 1])"

definition list_value_changes ::
  "Data \<Rightarrow> string \<Rightarrow> py_exception + (np_value \<times> np_value) list" where
  "list_value_changes self fname =
     (case map_of (data_data self) ''timestamp'' of
        None \<Rightarrow> Inl KeyError
      | Some t0 \<Rightarrow>
          (case map_of (data_data self) fname of
             None \<Rightarrow> Inl KeyError
           | Some x0 \<Rightarrow>
               if length x0 \<noteq> length t0 then Inl IndexError
               else
                 (let indices = map np_ne_zero t0;
                      t = np_mask indices t0;
                      x = np_mask indices x0
                  in if length t = 0 then Inr []
                     else Inr ((t ! 0, x ! 0) #
                               zip (map (\<lambda>i. t ! i) (change_indices x))
                                   (map (\<lambda>i. x ! i) (change_indices x))))))"

section \<open>The parser\<close>

text \<open>The attributes of a \<^verbatim>\<open>ULog\<close> object, with the standard output it has
  written. A dictionary is an association list in insertion order, updated with
  \<open>AList.update\<close> (an existing key keeps its place, a new key goes last).\<close>

record ULog =
  file_handle :: binary_file
  start_timestamp :: nat
  last_timestamp :: nat
  msg_info_dict :: "(string \<times> py_value) list"
  initial_parameters :: "(string \<times> py_value) list"
  changed_parameters :: "(nat \<times> string \<times> py_value) list"
  message_formats :: "(string \<times> message_format) list"
  logged_messages :: "message_logging list"
  dropouts :: "message_dropout list"
  data_list :: "Data list"
  subscriptions :: "(nat \<times> MessageAddLogged) list"
  filtered_message_ids :: "nat set"
  missing_message_ids :: "nat set"
  stdout :: "printed list"

text \<open>\<^verbatim>\<open>ULog.__init__\<close> before \<^verbatim>\<open>_load_file\<close>, and the \<^verbatim>\<open>open\<close> of the latter.\<close>

definition ULog_new :: "bytes \<Rightarrow> ULog" where
  "ULog_new file_content =
     \<lparr>file_handle = \<lparr>content = file_content, pos = 0\<rparr>,
      start_timestamp = 0, last_timestamp = 0, msg_info_dict = [],
      initial_parameters = [], changed_parameters = [], message_formats = [],
      logged_messages = [], dropouts = [], data_list = [], subscriptions = [],
      filtered_message_ids = {}, missing_message_ids = {}, stdout = []\<rparr>"

text \<open>How one pass through the body of a \<^verbatim>\<open>while True\<close> loop ends: at its end, at a
  \<^verbatim>\<open>break\<close>, or with an exception. The object as it is at that moment comes along,
  since the handler of the data section goes on with it.\<close>

datatype 'a control =
    Continue 'a
  | Break 'a
  | Raise py_exception 'a

subsection \<open>The file header\<close>

definition HEADER_BYTES :: bytes where
  "HEADER_BYTES = [CHR 0x55, CHR 0x4c, CHR 0x6f, CHR 0x67, CHR 0x01, CHR 0x12, CHR 0x35]"

definition read_file_header :: "ULog \<Rightarrow> py_exception + ULog" where
  "read_file_header self =
     (let (header_data, fh) = read 16 (file_handle self)
      in if length header_data \<noteq> 16
         then Inl (Exception ''Invalid file format (Header too short)'')
         else if slice 0 7 header_data \<noteq> HEADER_BYTES
         then Inl (Exception ''Invalid file format (Failed to parse header)'')
         else
           (let out = (if slice 7 8 header_data \<noteq> [CHR 0x00]
                       then stdout self @ [UnknownFileVersion] else stdout self)
            in exc_bind (unpack_uint64 (drop 8 header_data)) (\<lambda>ts.
                 Inr (self\<lparr>file_handle := fh, stdout := out, start_timestamp := ts\<rparr>))))"

subsection \<open>The definitions section\<close>

definition read_file_definitions_body :: "runtime \<Rightarrow> ULog \<Rightarrow> ULog control" where
  "read_file_definitions_body rt self =
     (let (data, fh1) = read 3 (file_handle self);
          self1 = self\<lparr>file_handle := fh1\<rparr>
      in if data = [] then Break self1
         else
           (case MessageHeader_initialize data of
              Inl e \<Rightarrow> Raise e self1
            | Inr (msg_size, msg_type) \<Rightarrow>
                (let (data, fh2) = read msg_size fh1;
                     self2 = self\<lparr>file_handle := fh2\<rparr>
                 in if msg_type = MSG_TYPE_INFO
                    then (case MessageInfo_init data of
                            Inl e \<Rightarrow> Raise e self2
                          | Inr msg_info \<Rightarrow>
                              Continue (self2\<lparr>msg_info_dict :=
                                AList.update (info_key msg_info) (info_value msg_info)
                                  (msg_info_dict self2)\<rparr>))
                    else if msg_type = MSG_TYPE_FORMAT
                    then (case MessageFormat_init rt data of
                            Inl e \<Rightarrow> Raise e self2
                          | Inr msg_format \<Rightarrow>
                              Continue (self2\<lparr>message_formats :=
                                AList.update (format_name msg_format) msg_format
                                  (message_formats self2)\<rparr>))
                    else if msg_type = MSG_TYPE_PARAMETER
                    then (case MessageInfo_init data of
                            Inl e \<Rightarrow> Raise e self2
                          | Inr msg_info \<Rightarrow>
                              Continue (self2\<lparr>initial_parameters :=
                                AList.update (info_key msg_info) (info_value msg_info)
                                  (initial_parameters self2)\<rparr>))
                    else if msg_type = MSG_TYPE_ADD_LOGGED_MSG \<or> msg_type = MSG_TYPE_LOGGING
                    then (case seek_cur (- (3 + int msg_size)) fh2 of
                            Inl e \<Rightarrow> Raise e self2
                          | Inr fh3 \<Rightarrow> Break (self\<lparr>file_handle := fh3\<rparr>))
                    else Continue self2)))"

text \<open>The bytes of the file that are still to be read: both loops end because every
  pass that goes on has read a whole header of 3 bytes.\<close>

definition remaining :: "ULog \<Rightarrow> nat" where
  "remaining self = length (content (file_handle self)) - pos (file_handle self)"

lemma read_remaining:
  "read n fh = (d, fh') \<Longrightarrow> content fh' = content fh \<and> pos fh' = pos fh + length d \<and> length d \<le> length (content fh) - pos fh \<and> length d \<le> n"
  by (auto simp: read_def Let_def)

lemma header_initialize_length:
  "MessageHeader_initialize d = Inr r \<Longrightarrow> length d = 3"
  by (auto simp: MessageHeader_initialize_def unpack_ushort_byte_def split: if_splits)

lemma read_file_definitions_body_decreases:
  assumes "read_file_definitions_body rt self = Continue self'"
  shows "remaining self' < remaining self"
proof -
  obtain d fh1 where r1: "read 3 (file_handle self) = (d, fh1)" by (cases "read 3 (file_handle self)")
  from assms r1 obtain sz ty where hd: "MessageHeader_initialize d = Inr (sz, ty)"
    by (auto simp: read_file_definitions_body_def Let_def split: if_splits sum.splits)
  obtain d2 fh2 where r2: "read sz fh1 = (d2, fh2)" by (cases "read sz fh1")
  from assms r1 hd r2 have "file_handle self' = fh2"
    by (auto simp: read_file_definitions_body_def Let_def split: if_splits sum.splits)
  moreover have "length d = 3" using hd by (rule header_initialize_length)
  ultimately show ?thesis
    using read_remaining [OF r1] read_remaining [OF r2] by (auto simp: remaining_def)
qed

function read_file_definitions_loop :: "runtime \<Rightarrow> ULog \<Rightarrow> py_exception + ULog" where
  "read_file_definitions_loop rt self =
     (case read_file_definitions_body rt self of
        Continue self' \<Rightarrow> read_file_definitions_loop rt self'
      | Break self' \<Rightarrow> Inr self'
      | Raise e self' \<Rightarrow> Inl e)"
  by pat_completeness auto
termination
  by (relation "measure (\<lambda>(rt, self). remaining self)")
     (auto simp: read_file_definitions_body_decreases)

declare read_file_definitions_loop.simps [simp del]

subsection \<open>The data section\<close>

text \<open>\<^verbatim>\<open>_MessageData.initialize\<close>: the timestamp of the record and the changed object,
  or the exception with the object as it is when it is raised (the bytes of the
  record are in the buffer by then).\<close>

definition MessageData_initialize :: "bytes \<Rightarrow> ULog \<Rightarrow> (py_exception \<times> ULog) + (nat \<times> ULog)" where
  "MessageData_initialize data self =
     (case unpack_ushort (slice 0 2 data) of
        Inl e \<Rightarrow> Inl (e, self)
      | Inr mid \<Rightarrow>
          (case map_of (subscriptions self) mid of
             Some subscription \<Rightarrow>
               (let self' = self\<lparr>subscriptions :=
                      AList.update mid (subscription\<lparr>buffer := buffer subscription @ drop 2 data\<rparr>)
                        (subscriptions self)\<rparr>;
                    t_off = int (timestamp_offset subscription)
                in (case unpack_uint64 (slice (t_off + 2) (t_off + 10) data) of
                      Inl e \<Rightarrow> Inl (e, self')
                    | Inr ts \<Rightarrow> Inr (ts, self')))
           | None \<Rightarrow>
               (if mid \<notin> filtered_message_ids self \<and> mid \<notin> missing_message_ids self
                then Inr (0, self\<lparr>missing_message_ids := insert mid (missing_message_ids self),
                                   stdout := stdout self @ [NoSubscriptionFound mid]\<rparr>)
                else Inr (0, self))))"

text \<open>The \<^verbatim>\<open>if\<close>/\<^verbatim>\<open>elif\<close> chain of the loop of \<^verbatim>\<open>_read_file_data\<close> on a complete
  message. The second argument is \<^verbatim>\<open>message_name_filter_list\<close>.\<close>

definition read_file_data_message ::
  "runtime \<Rightarrow> string list option \<Rightarrow> nat \<Rightarrow> bytes \<Rightarrow> ULog \<Rightarrow> ULog control" where
  "read_file_data_message rt message_name_filter_list msg_type data self =
     (if msg_type = MSG_TYPE_PARAMETER
      then (case MessageInfo_init data of
              Inl e \<Rightarrow> Raise e self
            | Inr msg_info \<Rightarrow>
                Continue (self\<lparr>changed_parameters := changed_parameters self @
                  [(last_timestamp self, info_key msg_info, info_value msg_info)]\<rparr>))
      else if msg_type = MSG_TYPE_ADD_LOGGED_MSG
      then (case MessageAddLogged_init rt data (message_formats self) of
              Inl e \<Rightarrow> Raise e self
            | Inr msg_add_logged \<Rightarrow>
                if (case message_name_filter_list of
                      None \<Rightarrow> True
                    | Some names \<Rightarrow> message_name msg_add_logged \<in> set names)
                then Continue (self\<lparr>subscriptions :=
                       AList.update (msg_id msg_add_logged) msg_add_logged (subscriptions self)\<rparr>)
                else Continue (self\<lparr>filtered_message_ids :=
                       insert (msg_id msg_add_logged) (filtered_message_ids self)\<rparr>))
      else if msg_type = MSG_TYPE_LOGGING
      then (case MessageLogging_init data of
              Inl e \<Rightarrow> Raise e self
            | Inr msg_logging \<Rightarrow>
                Continue (self\<lparr>logged_messages := logged_messages self @ [msg_logging]\<rparr>))
      else if msg_type = MSG_TYPE_DATA
      then (case MessageData_initialize data self of
              Inl (e, self') \<Rightarrow> Raise e self'
            | Inr (timestamp, self') \<Rightarrow>
                if timestamp \<noteq> 0 \<and> timestamp > last_timestamp self'
                then Continue (self'\<lparr>last_timestamp := timestamp\<rparr>)
                else Continue self')
      else if msg_type = MSG_TYPE_DROPOUT
      then (case MessageDropout_init data (last_timestamp self) of
              Inl e \<Rightarrow> Raise e self
            | Inr msg_dropout \<Rightarrow>
                Continue (self\<lparr>dropouts := dropouts self @ [msg_dropout]\<rparr>))
      else Continue self)"

text \<open>One pass through the loop of \<^verbatim>\<open>_read_file_data\<close>.\<close>

definition read_file_data_body :: "runtime \<Rightarrow> string list option \<Rightarrow> ULog \<Rightarrow> ULog control" where
  "read_file_data_body rt message_name_filter_list self =
     (let (data, fh1) = read 3 (file_handle self);
          self1 = self\<lparr>file_handle := fh1\<rparr>
      in (case MessageHeader_initialize data of
            Inl e \<Rightarrow> Raise e self1
          | Inr (msg_size, msg_type) \<Rightarrow>
              (let (data, fh2) = read msg_size fh1;
                   self2 = self\<lparr>file_handle := fh2\<rparr>
               in if length data < msg_size then Break self2
                  else read_file_data_message rt message_name_filter_list msg_type data self2)))"

lemma MessageData_initialize_file_handle:
  "MessageData_initialize data self = Inr (ts, self') \<Longrightarrow> file_handle self' = file_handle self"
  by (auto simp: MessageData_initialize_def Let_def split: sum.splits option.splits if_splits)

lemma read_file_data_message_file_handle:
  "read_file_data_message rt flt ty data self = Continue self' \<Longrightarrow>
   file_handle self' = file_handle self"
  unfolding read_file_data_message_def
  by (auto split: if_splits sum.splits prod.splits dest: MessageData_initialize_file_handle)

lemma read_file_data_body_decreases:
  assumes "read_file_data_body rt flt self = Continue self'"
  shows "remaining self' < remaining self"
proof -
  obtain d fh1 where r1: "read 3 (file_handle self) = (d, fh1)" by (cases "read 3 (file_handle self)")
  from assms r1 obtain sz ty where hd: "MessageHeader_initialize d = Inr (sz, ty)"
    by (auto simp: read_file_data_body_def Let_def split: if_splits sum.splits)
  obtain d2 fh2 where r2: "read sz fh1 = (d2, fh2)" by (cases "read sz fh1")
  from assms r1 hd r2 have "file_handle self' = fh2"
    by (auto simp: read_file_data_body_def Let_def split: if_splits
             dest: read_file_data_message_file_handle)
  moreover have "length d = 3" using hd by (rule header_initialize_length)
  ultimately show ?thesis
    using read_remaining [OF r1] read_remaining [OF r2] by (auto simp: remaining_def)
qed

text \<open>The loop of \<^verbatim>\<open>_read_file_data\<close>: how it is left (never by \<open>Continue\<close>) and the
  object at that moment.\<close>

function read_file_data_loop :: "runtime \<Rightarrow> string list option \<Rightarrow> ULog \<Rightarrow> ULog control" where
  "read_file_data_loop rt message_name_filter_list self =
     (case read_file_data_body rt message_name_filter_list self of
        Continue self' \<Rightarrow> read_file_data_loop rt message_name_filter_list self'
      | Break self' \<Rightarrow> Break self'
      | Raise e self' \<Rightarrow> Raise e self')"
  by pat_completeness auto
termination
  by (relation "measure (\<lambda>(rt, flt, self). remaining self)")
     (auto simp: read_file_data_body_decreases)

declare read_file_data_loop.simps [simp del]

text \<open>The conversion into the final representation: \<^verbatim>\<open>popitem\<close> takes the entry
  inserted last.\<close>

function convert_subscriptions :: "ULog \<Rightarrow> py_exception + ULog" where
  "convert_subscriptions self =
     (if subscriptions self = [] then Inr self
      else
        (let msg = snd (last (subscriptions self));
             self' = self\<lparr>subscriptions := butlast (subscriptions self)\<rparr>
         in if length (buffer msg) > 0
            then (case Data_init msg of
                    Inl e \<Rightarrow> Inl e
                  | Inr data_item \<Rightarrow>
                      convert_subscriptions (self'\<lparr>data_list := data_list self' @ [data_item]\<rparr>))
            else convert_subscriptions self'))"
  by pat_completeness auto
termination
  by (relation "measure (\<lambda>self. length (subscriptions self))") auto

declare convert_subscriptions.simps [simp del]

text \<open>\<^verbatim>\<open>_read_file_data\<close>: only \<^verbatim>\<open>struct.error\<close> is caught.\<close>

definition read_file_data :: "runtime \<Rightarrow> string list option \<Rightarrow> ULog \<Rightarrow> py_exception + ULog" where
  "read_file_data rt message_name_filter_list self =
     (case read_file_data_loop rt message_name_filter_list self of
        Raise e self' \<Rightarrow> if e = StructError then convert_subscriptions self' else Inl e
      | Break self' \<Rightarrow> convert_subscriptions self'
      | Continue self' \<Rightarrow> convert_subscriptions self')"

subsection \<open>Loading a file\<close>

definition load_file :: "runtime \<Rightarrow> bytes \<Rightarrow> string list option \<Rightarrow> py_exception + ULog" where
  "load_file rt file_content message_name_filter_list =
     exc_bind (read_file_header (ULog_new file_content)) (\<lambda>self.
     exc_bind (read_file_definitions_loop rt (self\<lparr>last_timestamp := start_timestamp self\<rparr>))
       (read_file_data rt message_name_filter_list))"

subsection \<open>Queries\<close>

text \<open>\<^verbatim>\<open>get_dataset\<close>: element 0 of the list of the matching elements;
  \<^verbatim>\<open>IndexError\<close> when that list is empty.\<close>

definition get_dataset :: "ULog \<Rightarrow> string \<Rightarrow> nat \<Rightarrow> py_exception + Data" where
  "get_dataset self name multi_instance =
     (case filter (\<lambda>elem. data_name elem = name \<and> data_multi_id elem = multi_instance)
             (data_list self) of
        [] \<Rightarrow> Inl IndexError
      | elem # rest \<Rightarrow> Inr elem)"

section \<open>General facts about the model\<close>

lemma le_uint_sum: "le_uint bs = (\<Sum>i<length bs. of_char (bs ! i) * 256 ^ i)"
proof (induction bs)
  case Nil
  then show ?case by simp
next
  case (Cons b bs)
  show ?case
    by (simp add: Cons.IH sum.lessThan_Suc_shift sum_distrib_left mult.assoc mult.left_commute
             del: sum.lessThan_Suc)
qed

lemma exc_bind_Inr_iff: "exc_bind m f = Inr y \<longleftrightarrow> (\<exists>x. m = Inr x \<and> f x = Inr y)"
  by (cases m) (simp_all add: exc_bind_def)

lemma exc_bind_simps [simp]: "exc_bind (Inl e) f = Inl e" "exc_bind (Inr x) f = f x"
  by (simp_all add: exc_bind_def)

lemma read_file_definitions_loop_rule:
  assumes step: "\<forall>s s'. P s \<longrightarrow> read_file_definitions_body rt s = Continue s' \<longrightarrow> P s'"
    and stop: "\<forall>s s'. P s \<longrightarrow> read_file_definitions_body rt s = Break s' \<longrightarrow> Q s'"
    and init: "P self"
    and res: "read_file_definitions_loop rt self = Inr self'"
  shows "Q self'"
  using assms
proof (induction rt self rule: read_file_definitions_loop.induct)
  case (1 rt self)
  show ?case
  proof (cases "read_file_definitions_body rt self")
    case (Continue s1)
    from "1.prems"(1,3) Continue have "P s1" by blast
    moreover from "1.prems"(4) Continue have "read_file_definitions_loop rt s1 = Inr self'"
      by (simp add: read_file_definitions_loop.simps [of rt self])
    ultimately show ?thesis
      using "1.IH" [OF Continue "1.prems"(1) "1.prems"(2)] by blast
  next
    case (Break s1)
    from "1.prems"(2,3) Break have "Q s1" by blast
    with "1.prems"(4) Break show ?thesis
      by (simp add: read_file_definitions_loop.simps [of rt self])
  next
    case (Raise e s1)
    with "1.prems"(4) show ?thesis by (simp add: read_file_definitions_loop.simps [of rt self])
  qed
qed

lemma read_file_data_loop_rule:
  assumes step: "\<forall>s s'. P s \<longrightarrow> read_file_data_body rt flt s = Continue s' \<longrightarrow> P s'"
    and stop: "\<forall>s s'. P s \<longrightarrow> read_file_data_body rt flt s = Break s' \<longrightarrow> Q s'"
    and exc: "\<forall>s s' e. P s \<longrightarrow> read_file_data_body rt flt s = Raise e s' \<longrightarrow> Q s'"
    and init: "P self"
  shows "case read_file_data_loop rt flt self of
           Continue s' \<Rightarrow> False | Break s' \<Rightarrow> Q s' | Raise e s' \<Rightarrow> Q s'"
  using assms
proof (induction rt flt self rule: read_file_data_loop.induct)
  case (1 rt flt self)
  show ?case
  proof (cases "read_file_data_body rt flt self")
    case (Continue s1)
    from "1.prems"(1,4) Continue have "P s1" by blast
    from "1.IH" [OF Continue "1.prems"(1) "1.prems"(2) "1.prems"(3) this] Continue
    show ?thesis
      by (simp add: read_file_data_loop.simps [of rt flt self])
  next
    case (Break s1)
    from "1.prems"(2,4) Break have "Q s1" by blast
    with Break show ?thesis
      by (simp add: read_file_data_loop.simps [of rt flt self])
  next
    case (Raise e s1)
    from "1.prems"(3,4) Raise have "Q s1" by blast
    with Raise show ?thesis
      by (simp add: read_file_data_loop.simps [of rt flt self])
  qed
qed

lemma convert_subscriptions_rule:
  assumes step: "\<forall>s d. P s \<longrightarrow> subscriptions s \<noteq> [] \<longrightarrow>
                   P (s\<lparr>subscriptions := butlast (subscriptions s)\<rparr>) \<and>
                   P (s\<lparr>subscriptions := butlast (subscriptions s),
                        data_list := data_list s @ [d]\<rparr>)"
    and init: "P self"
    and res: "convert_subscriptions self = Inr self'"
  shows "P self'"
  using assms
proof (induction self rule: convert_subscriptions.induct)
  case (1 self)
  show ?case
  proof (cases "subscriptions self = []")
    case True
    with "1.prems" show ?thesis by (simp add: convert_subscriptions.simps [of self])
  next
    case False
    note ne = this
    show ?thesis
    proof (cases "length (buffer (snd (last (subscriptions self)))) > 0")
      case True
      with ne "1.prems"(3) obtain d where d: "Data_init (snd (last (subscriptions self))) = Inr d"
        and r: "convert_subscriptions (self\<lparr>subscriptions := butlast (subscriptions self),
                  data_list := data_list self @ [d]\<rparr>) = Inr self'"
        by (auto simp: convert_subscriptions.simps [of self] Let_def split: sum.splits)
      from "1.prems"(1,2) ne
      have "P (self\<lparr>subscriptions := butlast (subscriptions self), data_list := data_list self @ [d]\<rparr>)"
        by blast
      with "1.IH"(1) [OF ne refl refl True d "1.prems"(1)] r show ?thesis by simp
    next
      case False
      with ne "1.prems"(3) have r: "convert_subscriptions (self\<lparr>subscriptions := butlast (subscriptions self)\<rparr>) = Inr self'"
        by (auto simp: convert_subscriptions.simps [of self] Let_def)
      from "1.prems"(1,2) ne have "P (self\<lparr>subscriptions := butlast (subscriptions self)\<rparr>)"
        by blast
      with "1.IH"(2) [OF ne refl refl False "1.prems"(1)] r show ?thesis by simp
    qed
  qed
qed

lemma slice_0: "slice 0 (int n) xs = take n xs"
  by (simp add: slice_def Let_def min_def)

lemma read_new: "read n (file_handle (ULog_new s)) = (take n s, \<lparr>content = s, pos = length (take n s)\<rparr>)"
  by (simp add: read_def ULog_new_def Let_def)

lemma read_file_header_short:
  "length s < 16 \<Longrightarrow>
   read_file_header (ULog_new s) = Inl (Exception ''Invalid file format (Header too short)'')"
  by (simp add: read_file_header_def read_new)

lemma read_file_header_magic:
  "16 \<le> length s \<Longrightarrow> take 7 s \<noteq> HEADER_BYTES \<Longrightarrow>
   read_file_header (ULog_new s) = Inl (Exception ''Invalid file format (Failed to parse header)'')"
  using slice_0 [of 7 "take 16 s"]
  by (simp add: read_file_header_def read_new min_def)

lemma le_uint_header:
  assumes "16 \<le> length s"
  shows "le_uint (drop 8 (take 16 s)) = (\<Sum>i<8. of_char (s ! (8 + i)) * 256 ^ i)"
proof -
  have "length (drop 8 (take 16 s)) = 8" using assms by simp
  moreover have "\<And>i. i < 8 \<Longrightarrow> drop 8 (take 16 s) ! i = s ! (8 + i)"
    using assms by simp
  ultimately show ?thesis by (simp add: le_uint_sum)
qed

lemma read_file_header_ok:
  assumes "16 \<le> length s" "take 7 s = HEADER_BYTES"
  shows "\<exists>u. read_file_header (ULog_new s) = Inr u \<and>
             start_timestamp u = (\<Sum>i<8. of_char (s ! (8 + i)) * 256 ^ i)"
  using assms slice_0 [of 7 "take 16 s"] le_uint_header [OF assms(1)]
  by (simp add: read_file_header_def read_new min_def unpack_uint64_def Let_def)

lemma read_file_definitions_body_timestamps:
  "read_file_definitions_body rt s = Continue s' \<or> read_file_definitions_body rt s = Break s' \<Longrightarrow>
   start_timestamp s' = start_timestamp s \<and> last_timestamp s' = last_timestamp s"
  unfolding read_file_definitions_body_def Let_def
  by (auto split: prod.splits if_splits sum.splits)

lemma read_file_definitions_loop_timestamps:
  assumes "read_file_definitions_loop rt s = Inr s'"
  shows "start_timestamp s' = start_timestamp s \<and> last_timestamp s' = last_timestamp s"
proof -
  let ?P = "\<lambda>u. start_timestamp u = start_timestamp s \<and> last_timestamp u = last_timestamp s"
  have "?P s'"
  proof (rule read_file_definitions_loop_rule [where P = ?P and Q = ?P, OF _ _ _ assms])
    show "\<forall>u u'. ?P u \<longrightarrow> read_file_definitions_body rt u = Continue u' \<longrightarrow> ?P u'"
      using read_file_definitions_body_timestamps by metis
    show "\<forall>u u'. ?P u \<longrightarrow> read_file_definitions_body rt u = Break u' \<longrightarrow> ?P u'"
      using read_file_definitions_body_timestamps by metis
    show "?P s" by simp
  qed
  then show ?thesis .
qed

lemma MessageData_initialize_Inr_start:
  "MessageData_initialize data self = Inr (ts, self') \<Longrightarrow>
   start_timestamp self' = start_timestamp self \<and> last_timestamp self' = last_timestamp self \<and>
   changed_parameters self' = changed_parameters self"
  by (auto simp: MessageData_initialize_def Let_def split: sum.splits option.splits if_splits)

lemma MessageData_initialize_Inl_start:
  "MessageData_initialize data self = Inl (e, self') \<Longrightarrow>
   start_timestamp self' = start_timestamp self \<and> last_timestamp self' = last_timestamp self \<and>
   changed_parameters self' = changed_parameters self"
  by (auto simp: MessageData_initialize_def Let_def split: sum.splits option.splits if_splits)

lemma read_file_data_message_start:
  "read_file_data_message rt flt ty data self = r \<Longrightarrow>
   r = Continue self' \<or> r = Break self' \<or> r = Raise e self' \<Longrightarrow>
   start_timestamp self' = start_timestamp self"
  unfolding read_file_data_message_def
  by (auto split: if_splits sum.splits prod.splits
           dest: MessageData_initialize_Inr_start MessageData_initialize_Inl_start)

lemma read_file_data_body_start:
  assumes "read_file_data_body rt flt self = r" "r = Continue self' \<or> r = Break self' \<or> r = Raise e self'"
  shows "start_timestamp self' = start_timestamp self"
  using assms unfolding read_file_data_body_def Let_def
  by (auto split: prod.splits sum.splits if_splits dest!: read_file_data_message_start)

lemma read_file_data_loop_start:
  "case read_file_data_loop rt flt s of
     Continue s' \<Rightarrow> False
   | Break s' \<Rightarrow> start_timestamp s' = start_timestamp s
   | Raise e s' \<Rightarrow> start_timestamp s' = start_timestamp s"
  by (rule read_file_data_loop_rule [where P = "\<lambda>u. start_timestamp u = start_timestamp s"])
     (auto dest: read_file_data_body_start)

lemma convert_subscriptions_start:
  assumes "convert_subscriptions s = Inr s'"
  shows "start_timestamp s' = start_timestamp s"
  by (rule convert_subscriptions_rule [where P = "\<lambda>u. start_timestamp u = start_timestamp s", OF _ _ assms])
     auto

lemma read_file_data_start:
  assumes "read_file_data rt flt s = Inr s'"
  shows "start_timestamp s' = start_timestamp s"
  using assms read_file_data_loop_start [where rt = rt and flt = flt and s = s]
  by (auto simp: read_file_data_def split: control.splits if_splits dest: convert_subscriptions_start)

lemma load_file_start_timestamp:
  assumes "load_file rt s flt = Inr u" "read_file_header (ULog_new s) = Inr h"
  shows "start_timestamp u = start_timestamp h"
proof -
  from assms obtain d where d: "read_file_definitions_loop rt (h\<lparr>last_timestamp := start_timestamp h\<rparr>) = Inr d"
    and u: "read_file_data rt flt d = Inr u"
    by (auto simp: load_file_def exc_bind_Inr_iff)
  from read_file_definitions_loop_timestamps [OF d] read_file_data_start [OF u]
  show ?thesis by simp
qed

section \<open>Examples\<close>

text \<open>A runtime for the examples: 1000 nested calls, and an \<^verbatim>\<open>int\<close> for the array
  sizes of the examples. It reads a string of decimal digits as Python does. It is
  not Python's \<^verbatim>\<open>int\<close> on other strings: Python also accepts a sign, white space
  around the number and single underscores between digits, which the examples do
  not contain. The general theorems take the runtime as a parameter and do not
  depend on it.\<close>

definition decimal_int :: "string \<Rightarrow> int option" where
  "decimal_int s =
     (if s \<noteq> [] \<and> list_all (\<lambda>c. 48 \<le> (of_char c :: nat) \<and> (of_char c :: nat) \<le> 57) s
      then Some (foldl (\<lambda>acc c. 10 * acc + (of_char c - 48)) 0 s)
      else None)"

definition example_runtime :: runtime where
  "example_runtime = \<lparr>recursion_limit = 1000, int_of_str = decimal_int\<rparr>"

text \<open>A message: the header of 3 bytes for a payload shorter than 256 bytes, and
  the payload.\<close>

definition message :: "char \<Rightarrow> bytes \<Rightarrow> bytes" where
  "message msg_type payload = [char_of (length payload), CHR 0x00, msg_type] @ payload"

text \<open>A header with the magic bytes, version 0 and the timestamp 513.\<close>

definition example_header :: bytes where
  "example_header = HEADER_BYTES @
     [CHR 0x00, CHR 0x01, CHR 0x02, CHR 0x00, CHR 0x00, CHR 0x00, CHR 0x00, CHR 0x00, CHR 0x00]"

text \<open>The format message and the add-logged message (multi-instance id 0, message
  id 0) of a topic \<^verbatim>\<open>t\<close> with the only field \<^verbatim>\<open>uint64_t timestamp\<close>.\<close>

definition add_timestamp_topic :: bytes where
  "add_timestamp_topic =
     message CHR ''F'' ''t:uint64_t timestamp;'' @
     message CHR ''A'' ([CHR 0x00, CHR 0x00, CHR 0x00] @ ''t'')"

text \<open>The object at the start of the data section of a file.\<close>

definition data_section_start :: "runtime \<Rightarrow> bytes \<Rightarrow> ULog" where
  "data_section_start rt file_content =
     projr (exc_bind (read_file_header (ULog_new file_content)) (\<lambda>self.
              read_file_definitions_loop rt (self\<lparr>last_timestamp := start_timestamp self\<rparr>)))"

section \<open>The file header (C2)\<close>

text \<open>
  C2 (amended). For a file of at least 16 bytes that begins with the 7 magic bytes,
  reading the header succeeds and the start timestamp is the little-endian
  unsigned value of the bytes 8 to 15, and it is still the start timestamp of the
  object when the whole file loads. For a file of at least 16 bytes whose first 7
  bytes are not the magic bytes, reading the header raises the exception
  "Invalid file format (Failed to parse header)" (the specification's FormatError). For
  a file of fewer than 16 bytes it raises "Invalid file format (Header too short)"
  (the specification's TruncatedError), whatever its first bytes are.
\<close>

theorem read_file_header_cases:
  "(16 \<le> length s \<and> take 7 s = HEADER_BYTES \<longrightarrow>
      (\<exists>u. read_file_header (ULog_new s) = Inr u \<and>
            start_timestamp u = (\<Sum>i<8. of_char (s ! (8 + i)) * 256 ^ i)) \<and>
      (\<forall>u. load_file rt s flt = Inr u \<longrightarrow>
            start_timestamp u = (\<Sum>i<8. of_char (s ! (8 + i)) * 256 ^ i))) \<and>
   (16 \<le> length s \<and> take 7 s \<noteq> HEADER_BYTES \<longrightarrow>
      read_file_header (ULog_new s) = Inl (Exception ''Invalid file format (Failed to parse header)'') \<and>
      load_file rt s flt = Inl (Exception ''Invalid file format (Failed to parse header)'')) \<and>
   (length s < 16 \<longrightarrow>
      read_file_header (ULog_new s) = Inl (Exception ''Invalid file format (Header too short)'') \<and>
      load_file rt s flt = Inl (Exception ''Invalid file format (Header too short)''))"
proof (intro conjI impI)
  assume a: "16 \<le> length s \<and> take 7 s = HEADER_BYTES"
  then show "\<exists>u. read_file_header (ULog_new s) = Inr u \<and>
            start_timestamp u = (\<Sum>i<8. of_char (s ! (8 + i)) * 256 ^ i)"
    using read_file_header_ok by blast
  then show "\<forall>u. load_file rt s flt = Inr u \<longrightarrow>
            start_timestamp u = (\<Sum>i<8. of_char (s ! (8 + i)) * 256 ^ i)"
    using load_file_start_timestamp by metis
next
  assume a: "16 \<le> length s \<and> take 7 s \<noteq> HEADER_BYTES"
  then show "read_file_header (ULog_new s) = Inl (Exception ''Invalid file format (Failed to parse header)'')"
    using read_file_header_magic by blast
  then show "load_file rt s flt = Inl (Exception ''Invalid file format (Failed to parse header)'')"
    by (simp add: load_file_def)
next
  assume a: "length s < 16"
  then show "read_file_header (ULog_new s) = Inl (Exception ''Invalid file format (Header too short)'')"
    by (rule read_file_header_short)
  then show "load_file rt s flt = Inl (Exception ''Invalid file format (Header too short)'')"
    by (simp add: load_file_def)
qed

theorem read_file_header_cases_witness:
  "16 \<le> length example_header \<and> take 7 example_header = HEADER_BYTES \<and>
   (\<exists>u. read_file_header (ULog_new example_header) = Inr u \<and> start_timestamp u = 513)"
proof -
  have h: "16 \<le> length example_header \<and> take 7 example_header = HEADER_BYTES"
    by (simp add: example_header_def HEADER_BYTES_def)
  have v: "(\<Sum>i<8. of_char (example_header ! (8 + i)) * 256 ^ i) = (513::nat)"
    by (simp add: example_header_def HEADER_BYTES_def lessThan_nat_numeral lessThan_Suc)
  from read_file_header_cases [of example_header] h
  have "\<exists>u. read_file_header (ULog_new example_header) = Inr u \<and>
            start_timestamp u = (\<Sum>i<8. of_char (example_header ! (8 + i)) * 256 ^ i)"
    by blast
  with h v show ?thesis by metis
qed

text \<open>
  A file of 8 bytes whose first 7 bytes are not the magic bytes: the exception is
  the one for a short header, not the one for the magic bytes.
\<close>

theorem read_file_header_counterexample:
  "take 7 ''notulog!'' \<noteq> HEADER_BYTES \<and>
   read_file_header (ULog_new ''notulog!'') = Inl (Exception ''Invalid file format (Header too short)'') \<and>
   read_file_header (ULog_new ''notulog!'') \<noteq> Inl (Exception ''Invalid file format (Failed to parse header)'')"
  by (simp add: read_file_header_short HEADER_BYTES_def)

section \<open>Value changes (C5)\<close>

lemma upt_5: "[0..<5] = [0, 1, 2, 3, 4::nat]"
  by (simp add: upt_rec)

text \<open>
  C5. For a decoded topic whose field has the values 5, 5, 5, 7, 7, 3 and whose
  timestamps are strictly increasing and not zero, \<open>list_value_changes\<close> returns
  exactly the pairs (timestamp, value) of the records 0, 3 and 5: the first
  record, and every record whose value differs from the one before it.
\<close>

theorem list_value_changes_example:
  assumes ts: "length ts = 6" "sorted_wrt (<) ts" "0 \<notin> set ts"
    and t: "map_of (data_data self) ''timestamp'' = Some (map NpInt ts)"
    and x: "map_of (data_data self) fname = Some (map NpInt [5, 5, 5, 7, 7, 3])"
  shows "list_value_changes self fname =
           Inr [(NpInt (ts ! 0), NpInt 5), (NpInt (ts ! 3), NpInt 7), (NpInt (ts ! 5), NpInt 3)]"
proof -
  from ts(1) obtain t0 t1 t2 t3 t4 t5 where l: "ts = [t0, t1, t2, t3, t4, t5]"
    by (auto simp: length_Suc_conv eval_nat_numeral)
  from ts(3) l have nz: "t0 \<noteq> 0" "t1 \<noteq> 0" "t2 \<noteq> 0" "t3 \<noteq> 0" "t4 \<noteq> 0" "t5 \<noteq> 0"
    by auto
  show ?thesis
    unfolding list_value_changes_def t x
    by (simp add: l nz Let_def np_mask_def change_indices_def upt_5)
qed


definition example_data :: Data where
  "example_data =
     \<lparr>data_multi_id = 0, data_name = ''t'',
      data_field_data = [\<lparr>field_name = ''timestamp'', type_str = ''uint64_t''\<rparr>,
                         \<lparr>field_name = ''x'', type_str = ''uint8_t''\<rparr>],
      data_timestamp_idx = 0,
      data_data = [(''timestamp'', map NpInt [10, 20, 30, 40, 50, 60]),
                   (''x'', map NpInt [5, 5, 5, 7, 7, 3])]\<rparr>"

theorem list_value_changes_example_witness:
  "length [10, 20, 30, 40, 50, 60 :: int] = 6 \<and>
   sorted_wrt (<) [10, 20, 30, 40, 50, 60 :: int] \<and>
   0 \<notin> set [10, 20, 30, 40, 50, 60 :: int] \<and>
   map_of (data_data example_data) ''timestamp'' = Some (map NpInt [10, 20, 30, 40, 50, 60]) \<and>
   map_of (data_data example_data) ''x'' = Some (map NpInt [5, 5, 5, 7, 7, 3]) \<and>
   list_value_changes example_data ''x'' = Inr [(NpInt 10, NpInt 5), (NpInt 40, NpInt 7), (NpInt 60, NpInt 3)]"
proof -
  have h1: "length [10, 20, 30, 40, 50, 60 :: int] = 6" by simp
  have h2: "sorted_wrt (<) [10, 20, 30, 40, 50, 60 :: int]" by simp
  have h3: "0 \<notin> set [10, 20, 30, 40, 50, 60 :: int]" by simp
  have h4: "map_of (data_data example_data) ''timestamp'' = Some (map NpInt [10, 20, 30, 40, 50, 60])"
    by (simp add: example_data_def)
  have h5: "map_of (data_data example_data) ''x'' = Some (map NpInt [5, 5, 5, 7, 7, 3])"
    by (simp add: example_data_def)
  have c: "list_value_changes example_data ''x'' =
             Inr [(NpInt 10, NpInt 5), (NpInt 40, NpInt 7), (NpInt 60, NpInt 3)]"
    using list_value_changes_example [OF h1 h2 h3 h4 h5] by simp
  from h1 h2 h3 h4 h5 c show ?thesis by blast
qed

section \<open>Flattening a nested array (C6)\<close>

lemma str_digits: "str 0 = ''0''" "str (Suc 0) = ''1''" "str 2 = ''2''"
  by code_simp+

lemma upt_3: "[0..<3] = [0, 1, 2::nat]"
  by (simp add: upt_rec)

text \<open>
  C6. When the format of a topic has one field \<^verbatim>\<open>field\<close> that is an array of
  length 3 of a composite type with the two fields \<^verbatim>\<open>int32_t a\<close> and
  \<^verbatim>\<open>int32_t b\<close>, flattening yields exactly the 6 entries \<^verbatim>\<open>field[0].a\<close>,
  \<^verbatim>\<open>field[0].b\<close>, \<^verbatim>\<open>field[1].a\<close>, \<^verbatim>\<open>field[1].b\<close>, \<^verbatim>\<open>field[2].a\<close>,
  \<^verbatim>\<open>field[2].b\<close>, in this order, each of type \<^verbatim>\<open>int32_t\<close> (two nested calls
  must fit under the recursion limit).
\<close>

theorem parse_format_nested_array:
  assumes outer: "map_of mf outer = Some fo" "format_fields fo = [(inner, 3, ''field'')]"
    and inner: "map_of mf inner = Some fi"
               "format_fields fi = [(''int32_t'', 1, ''a''), (''int32_t'', 1, ''b'')]"
    and composite: "inner \<notin> set (map fst UNPACK_TYPES)"
    and depth: "2 \<le> depth"
  shows "parse_format depth outer mf =
           Inr ([\<lparr>field_name = ''field[0].a'', type_str = ''int32_t''\<rparr>,
                 \<lparr>field_name = ''field[0].b'', type_str = ''int32_t''\<rparr>,
                 \<lparr>field_name = ''field[1].a'', type_str = ''int32_t''\<rparr>,
                 \<lparr>field_name = ''field[1].b'', type_str = ''int32_t''\<rparr>,
                 \<lparr>field_name = ''field[2].a'', type_str = ''int32_t''\<rparr>,
                 \<lparr>field_name = ''field[2].b'', type_str = ''int32_t''\<rparr>], -1)"
proof -
  from depth obtain d where d: "depth = Suc (Suc d)"
    by (metis Suc_le_D numeral_2_eq_2 Suc_le_mono)
  have prim: "''int32_t'' \<in> set (map fst UNPACK_TYPES)"
    by (simp add: UNPACK_TYPES_def)
  have one: "parse_nested_type (Suc d) p inner mf st =
               Inr (fst st @ [\<lparr>field_name = p @ ''a'', type_str = ''int32_t''\<rparr>,
                              \<lparr>field_name = p @ ''b'', type_str = ''int32_t''\<rparr>],
                    if p @ ''b'' = ''timestamp'' then int (length (fst st)) + 1
                    else if p @ ''a'' = ''timestamp'' then int (length (fst st)) else snd st)"
    for p st
    using prim by (simp add: inner Let_def)
  have flat: "parse_nested_type depth [] outer mf ([], -1) =
           Inr ([\<lparr>field_name = ''field[0].a'', type_str = ''int32_t''\<rparr>,
                 \<lparr>field_name = ''field[0].b'', type_str = ''int32_t''\<rparr>,
                 \<lparr>field_name = ''field[1].a'', type_str = ''int32_t''\<rparr>,
                 \<lparr>field_name = ''field[1].b'', type_str = ''int32_t''\<rparr>,
                 \<lparr>field_name = ''field[2].a'', type_str = ''int32_t''\<rparr>,
                 \<lparr>field_name = ''field[2].b'', type_str = ''int32_t''\<rparr>], -1)"
  proof -
    have "parse_nested_type (Suc (Suc d)) [] outer mf ([], -1) =
            parse_fields (Suc d) [] [(inner, 3, ''field'')] mf ([], -1)"
      by (simp add: outer)
    also have "\<dots> = Inr ([\<lparr>field_name = ''field[0].a'', type_str = ''int32_t''\<rparr>,
                 \<lparr>field_name = ''field[0].b'', type_str = ''int32_t''\<rparr>,
                 \<lparr>field_name = ''field[1].a'', type_str = ''int32_t''\<rparr>,
                 \<lparr>field_name = ''field[1].b'', type_str = ''int32_t''\<rparr>,
                 \<lparr>field_name = ''field[2].a'', type_str = ''int32_t''\<rparr>,
                 \<lparr>field_name = ''field[2].b'', type_str = ''int32_t''\<rparr>], -1)"
      using composite by (simp add: one upt_3 str_digits del: parse_nested_type.simps)
    finally show ?thesis unfolding d .
  qed
  show ?thesis
    unfolding parse_format_def flat
    by (simp add: remove_padding.simps startswith_def)
qed


definition example_formats :: "(string \<times> message_format) list" where
  "example_formats =
     [(''pair'', \<lparr>format_name = ''pair'',
                  format_fields = [(''int32_t'', 1, ''a''), (''int32_t'', 1, ''b'')]\<rparr>),
      (''outer'', \<lparr>format_name = ''outer'', format_fields = [(''pair'', 3, ''field'')]\<rparr>)]"

theorem parse_format_nested_array_witness:
  "map_of example_formats ''outer'' =
     Some \<lparr>format_name = ''outer'', format_fields = [(''pair'', 3, ''field'')]\<rparr> \<and>
   map_of example_formats ''pair'' =
     Some \<lparr>format_name = ''pair'',
           format_fields = [(''int32_t'', 1, ''a''), (''int32_t'', 1, ''b'')]\<rparr> \<and>
   ''pair'' \<notin> set (map fst UNPACK_TYPES) \<and>
   parse_format 2 ''outer'' example_formats =
           Inr ([\<lparr>field_name = ''field[0].a'', type_str = ''int32_t''\<rparr>,
                 \<lparr>field_name = ''field[0].b'', type_str = ''int32_t''\<rparr>,
                 \<lparr>field_name = ''field[1].a'', type_str = ''int32_t''\<rparr>,
                 \<lparr>field_name = ''field[1].b'', type_str = ''int32_t''\<rparr>,
                 \<lparr>field_name = ''field[2].a'', type_str = ''int32_t''\<rparr>,
                 \<lparr>field_name = ''field[2].b'', type_str = ''int32_t''\<rparr>], -1)"
proof -
  have h1: "map_of example_formats ''outer'' =
     Some \<lparr>format_name = ''outer'', format_fields = [(''pair'', 3, ''field'')]\<rparr>"
    by (simp add: example_formats_def)
  have h2: "map_of example_formats ''pair'' =
     Some \<lparr>format_name = ''pair'',
           format_fields = [(''int32_t'', 1, ''a''), (''int32_t'', 1, ''b'')]\<rparr>"
    by (simp add: example_formats_def)
  have h3: "''pair'' \<notin> set (map fst UNPACK_TYPES)"
    by (simp add: UNPACK_TYPES_def)
  have c: "parse_format 2 ''outer'' example_formats =
           Inr ([\<lparr>field_name = ''field[0].a'', type_str = ''int32_t''\<rparr>,
                 \<lparr>field_name = ''field[0].b'', type_str = ''int32_t''\<rparr>,
                 \<lparr>field_name = ''field[1].a'', type_str = ''int32_t''\<rparr>,
                 \<lparr>field_name = ''field[1].b'', type_str = ''int32_t''\<rparr>,
                 \<lparr>field_name = ''field[2].a'', type_str = ''int32_t''\<rparr>,
                 \<lparr>field_name = ''field[2].b'', type_str = ''int32_t''\<rparr>], -1)"
    by (rule parse_format_nested_array [OF h1 _ h2 _ h3]) simp_all
  from h1 h2 h3 c show ?thesis by blast
qed

section \<open>Querying the data list (C9)\<close>

text \<open>
  C9 (amended). \<^verbatim>\<open>get_dataset\<close> raises \<^verbatim>\<open>IndexError\<close> when no element of the data
  list has the name and the multi-instance id; otherwise it returns the first
  element of the list that has both, whether or not later elements have them too.
  In particular it returns the matching element when there is exactly one.
\<close>

theorem get_dataset_first_match:
  "((\<forall>elem \<in> set (data_list self). \<not> (data_name elem = name \<and> data_multi_id elem = m)) \<longrightarrow>
      get_dataset self name m = Inl IndexError) \<and>
   (\<forall>before elem after.
      data_list self = before @ elem # after \<and>
      data_name elem = name \<and> data_multi_id elem = m \<and>
      (\<forall>e \<in> set before. \<not> (data_name e = name \<and> data_multi_id e = m)) \<longrightarrow>
      get_dataset self name m = Inr elem)"
proof (intro conjI allI impI)
  assume "\<forall>elem \<in> set (data_list self). \<not> (data_name elem = name \<and> data_multi_id elem = m)"
  then have "filter (\<lambda>elem. data_name elem = name \<and> data_multi_id elem = m) (data_list self) = []"
    by (simp add: filter_empty_conv)
  then show "get_dataset self name m = Inl IndexError"
    by (simp add: get_dataset_def)
next
  fix before elem after
  assume a: "data_list self = before @ elem # after \<and>
      data_name elem = name \<and> data_multi_id elem = m \<and>
      (\<forall>e \<in> set before. \<not> (data_name e = name \<and> data_multi_id e = m))"
  then have "filter (\<lambda>elem. data_name elem = name \<and> data_multi_id elem = m) before = []"
    by (simp add: filter_empty_conv)
  with a show "get_dataset self name m = Inr elem"
    by (simp add: get_dataset_def)
qed

text \<open>A file with two subscriptions (message ids 0 and 1) to the same topic
  \<^verbatim>\<open>t\<close> with the same multi-instance id 0, and one record for each.\<close>

definition two_subscriptions_file :: bytes where
  "two_subscriptions_file =
     example_header @
     message CHR ''F'' ''t:uint64_t timestamp;'' @
     message CHR ''A'' ([CHR 0x00, CHR 0x00, CHR 0x00] @ ''t'') @
     message CHR ''A'' ([CHR 0x00, CHR 0x01, CHR 0x00] @ ''t'') @
     message CHR ''D'' ([CHR 0x00, CHR 0x00,
                         CHR 0x05, CHR 0x00, CHR 0x00, CHR 0x00, CHR 0x00, CHR 0x00, CHR 0x00, CHR 0x00]) @
     message CHR ''D'' ([CHR 0x01, CHR 0x00,
                         CHR 0x07, CHR 0x00, CHR 0x00, CHR 0x00, CHR 0x00, CHR 0x00, CHR 0x00, CHR 0x00])"

definition topic_with_timestamps :: "int list \<Rightarrow> Data" where
  "topic_with_timestamps ts =
     \<lparr>data_multi_id = 0, data_name = ''t'',
      data_field_data = [\<lparr>field_name = ''timestamp'', type_str = ''uint64_t''\<rparr>],
      data_timestamp_idx = 0,
      data_data = [(''timestamp'', map NpInt ts)]\<rparr>"

text \<open>
  The file with the two subscriptions loads into a data list of two elements with
  the same name and multi-instance id; \<open>get_dataset\<close> does not raise, it returns
  the first of them.
\<close>

theorem get_dataset_counterexample:
  "map_sum id data_list (load_file example_runtime two_subscriptions_file None) =
     Inr [topic_with_timestamps [7], topic_with_timestamps [5]] \<and>
   exc_bind (load_file example_runtime two_subscriptions_file None) (\<lambda>self. get_dataset self ''t'' 0) =
     Inr (topic_with_timestamps [7]) \<and>
   topic_with_timestamps [7] \<noteq> topic_with_timestamps [5]"
  by code_simp

theorem get_dataset_first_match_witness:
  "get_dataset (ULog_new [] \<lparr>data_list := [topic_with_timestamps [7], topic_with_timestamps [5]]\<rparr>) ''t'' 0 =
     Inr (topic_with_timestamps [7]) \<and>
   get_dataset (ULog_new [] \<lparr>data_list := [topic_with_timestamps [7], topic_with_timestamps [5]]\<rparr>) ''u'' 0 =
     Inl IndexError"
proof -
  let ?self = "ULog_new [] \<lparr>data_list := [topic_with_timestamps [7], topic_with_timestamps [5]]\<rparr>"
  have h1: "data_list ?self = [] @ topic_with_timestamps [7] # [topic_with_timestamps [5]] \<and>
      data_name (topic_with_timestamps [7]) = ''t'' \<and> data_multi_id (topic_with_timestamps [7]) = 0 \<and>
      (\<forall>e \<in> set []. \<not> (data_name e = ''t'' \<and> data_multi_id e = 0))"
    by (simp add: topic_with_timestamps_def)
  have h2: "\<forall>elem \<in> set (data_list ?self). \<not> (data_name elem = ''u'' \<and> data_multi_id elem = 0)"
    by (simp add: topic_with_timestamps_def)
  from get_dataset_first_match [of ?self "''t''" 0] h1
  have c1: "get_dataset ?self ''t'' 0 = Inr (topic_with_timestamps [7])" by blast
  from get_dataset_first_match [of ?self "''u''" 0] h2
  have c2: "get_dataset ?self ''u'' 0 = Inl IndexError" by blast
  from c1 c2 show ?thesis by blast
qed

section \<open>The record size of a subscription (C1)\<close>

text \<open>The sum of the sizes that the type table gives to the fields of a list.\<close>

definition field_widths :: "FieldData list \<Rightarrow> nat" where
  "field_widths fd =
     sum_list (map (\<lambda>f. case map_of UNPACK_TYPES (type_str f) of
                            None \<Rightarrow> 0
                          | Some (fmt, width, numpy_type) \<Rightarrow> width) fd)"

lemma field_widths_append: "field_widths (xs @ ys) = field_widths xs + field_widths ys"
  by (simp add: field_widths_def)

lemma unpack_type_size:
  "unpack_type ty = Inr (fmt, width, numpy_type) \<Longrightarrow>
   np_type_size numpy_type = width \<and> map_of UNPACK_TYPES ty = Some (fmt, width, numpy_type)"
  by (auto simp: unpack_type_def UNPACK_TYPES_def split: if_splits)

lemma itemsize_append: "itemsize (xs @ ys) = itemsize xs + itemsize ys"
  by (simp add: itemsize_def)

lemma dtype_list_loop_itemsize:
  "dtype_list_loop fd acc = Inr dl \<Longrightarrow> itemsize dl = itemsize acc + field_widths fd"
proof (induction fd arbitrary: acc)
  case Nil
  then show ?case by (simp add: field_widths_def)
next
  case (Cons f fd)
  from Cons.prems obtain fmt width numpy_type
    where u: "unpack_type (type_str f) = Inr (fmt, width, numpy_type)"
      and r: "dtype_list_loop fd (acc @ [(field_name f, numpy_type)]) = Inr dl"
    by (auto split: sum.splits)
  from Cons.IH [OF r] unpack_type_size [OF u] show ?case
    by (simp add: itemsize_append) (simp add: itemsize_def field_widths_def)
qed

lemma np_dtype_itemsize: "np_dtype dl = Inr dt \<Longrightarrow> itemsize dt = itemsize dl"
proof -
  assume a: "np_dtype dl = Inr dt"
  then have dt: "dt = map (\<lambda>(i, (name, t)). (if name = [] then ''f'' @ str i else name, t)) (enumerate 0 dl)"
    by (auto simp: np_dtype_def Let_def split: if_splits)
  have "map snd dt = map snd dl"
    unfolding dt by (rule nth_equalityI) (auto simp: nth_enumerate_eq split: prod.splits)
  moreover have "itemsize xs = sum_list (map np_type_size (map snd xs))" for xs
    by (simp add: itemsize_def comp_def case_prod_unfold)
  ultimately show ?thesis by metis
qed

lemma remove_padding_decomp:
  "\<exists>dropped. fd = remove_padding fd @ dropped \<and>
             list_all (\<lambda>f. startswith (field_name f) ''_padding'') dropped"
proof (induction fd rule: remove_padding.induct)
  case (1 fd)
  show ?case
  proof (cases "length fd > 0 \<and> startswith (field_name (last fd)) ''_padding''")
    case True
    with 1 obtain dropped where d: "butlast fd = remove_padding (butlast fd) @ dropped"
      "list_all (\<lambda>f. startswith (field_name f) ''_padding'') dropped"
      by blast
    from True have "fd = butlast fd @ [last fd]" by simp
    with d(1) have "fd = remove_padding (butlast fd) @ (dropped @ [last fd])"
      by (metis append.assoc)
    moreover from True have "remove_padding fd = remove_padding (butlast fd)"
      by (simp add: remove_padding.simps [of fd])
    ultimately show ?thesis using d(2) True
      by (intro exI [of _ "dropped @ [last fd]"]) simp
  next
    case False
    then have "remove_padding fd = fd" by (subst remove_padding.simps) auto
    then show ?thesis by (intro exI [of _ "[]"]) simp
  qed
qed

lemma remove_padding_last:
  "remove_padding fd = [] \<or> \<not> startswith (field_name (last (remove_padding fd))) ''_padding''"
proof (induction fd rule: remove_padding.induct)
  case (1 fd)
  show ?case
  proof (cases "length fd > 0 \<and> startswith (field_name (last fd)) ''_padding''")
    case True
    then have "remove_padding fd = remove_padding (butlast fd)"
      by (simp add: remove_padding.simps [of fd])
    with 1 True show ?thesis by simp
  next
    case False
    then have "remove_padding fd = fd" by (subst remove_padding.simps) auto
    with False show ?thesis by auto
  qed
qed

lemma concat_records:
  "length buf = n * k \<Longrightarrow> concat (map (\<lambda>i. take k (drop (i * k) buf)) [0..<n]) = buf"
proof (induction n arbitrary: buf)
  case 0
  then show ?case by simp
next
  case (Suc n)
  have "length (take (n * k) buf) = n * k" using Suc.prems by simp
  from Suc.IH [OF this]
  have "concat (map (\<lambda>i. take k (drop (i * k) (take (n * k) buf))) [0..<n]) = take (n * k) buf" .
  moreover have "take k (drop (i * k) (take (n * k) buf)) = take k (drop (i * k) buf)" if "i < n" for i
  proof -
    from that have "i * k + k \<le> n * k"
      by (metis Suc_leI mult_Suc mult_le_mono1 add.commute)
    then show ?thesis by (simp add: drop_take min_def)
  qed
  moreover have "map (\<lambda>i. take k (drop (i * k) (take (n * k) buf))) [0..<n] =
                 map (\<lambda>i. take k (drop (i * k) buf)) [0..<n]"
    by (rule map_cong [OF refl]) (simp add: calculation(2))
  ultimately have "concat (map (\<lambda>i. take k (drop (i * k) buf)) [0..<n]) = take (n * k) buf"
    by metis
  moreover have "take k (drop (n * k) buf) = drop (n * k) buf" using Suc.prems by simp
  ultimately show ?case by simp
qed

lemma np_frombuffer_records:
  assumes "np_frombuffer buf dt = Inr records"
  shows "concat records = buf \<and> list_all (\<lambda>r. length r = itemsize dt) records"
proof -
  from assms have nz: "itemsize dt \<noteq> 0" and m: "length buf mod itemsize dt = 0"
    and r: "records = map (\<lambda>i. take (itemsize dt) (drop (i * itemsize dt) buf))
                          [0..<length buf div itemsize dt]"
    by (auto simp: np_frombuffer_def split: if_splits)
  from m have l: "length buf = (length buf div itemsize dt) * itemsize dt" by auto
  have "concat records = buf" unfolding r by (rule concat_records [OF l])
  moreover have "list_all (\<lambda>r. length r = itemsize dt) records"
    unfolding r list_all_iff
  proof
    fix x assume "x \<in> set (map (\<lambda>i. take (itemsize dt) (drop (i * itemsize dt) buf))
                          [0..<length buf div itemsize dt])"
    then obtain i where i: "i < length buf div itemsize dt"
      and x: "x = take (itemsize dt) (drop (i * itemsize dt) buf)" by auto
    from i have "i * itemsize dt + itemsize dt \<le> (length buf div itemsize dt) * itemsize dt"
      by (metis Suc_leI mult_Suc mult_le_mono1 add.commute)
    with l have "i * itemsize dt + itemsize dt \<le> length buf" by simp
    then show "length x = itemsize dt" unfolding x by simp
  qed
  ultimately show ?thesis by blast
qed

lemma MessageAddLogged_init_parts:
  assumes "MessageAddLogged_init rt data mf = Inr sub"
  shows "\<exists>flat dtype_list.
           parse_nested_type (recursion_limit rt) [] (message_name sub) mf ([], -1)
             = Inr (flat, timestamp_idx sub) \<and>
           field_data sub = remove_padding flat \<and>
           timestamp_offset_loop (field_data sub) 0 = Inr (timestamp_offset sub) \<and>
           dtype_list_loop (field_data sub) [] = Inr dtype_list \<and>
           np_dtype dtype_list = Inr (dtype sub) \<and>
           buffer sub = []"
  using assms unfolding MessageAddLogged_init_def parse_format_def
  by (auto simp: exc_bind_Inr_iff split: prod.splits)


text \<open>
  C1 (amended). For every subscription that an add-logged message creates, the
  byte stride with which the accumulated buffer is cut into records (the item size
  of the subscription's dtype, used by \<open>np_frombuffer\<close> in \<open>Data_init\<close>) is
  the sum of the primitive widths of the emitted field list, from which the
  trailing filler fields have been dropped. The unfiltered flattened list is the
  emitted list followed by the dropped filler fields, and the emitted list does
  not end with a filler field (it is empty, or the name of its last field does not
  start with \<^verbatim>\<open>_padding\<close>): all trailing filler fields are dropped. So the
  width sum of the unfiltered list is the stride plus the widths of the dropped
  fields: trailing filler fields do not occupy bytes in the stride.
\<close>

theorem record_size_is_emitted_width:
  assumes "MessageAddLogged_init rt data mf = Inr sub"
  shows "itemsize (dtype sub) = field_widths (field_data sub) \<and>
         (\<exists>flat dropped.
            parse_nested_type (recursion_limit rt) [] (message_name sub) mf ([], -1)
              = Inr (flat, timestamp_idx sub) \<and>
            flat = field_data sub @ dropped \<and>
            list_all (\<lambda>f. startswith (field_name f) ''_padding'') dropped \<and>
            field_widths flat = itemsize (dtype sub) + field_widths dropped) \<and>
         (field_data sub = [] \<or>
            \<not> startswith (field_name (last (field_data sub))) ''_padding'') \<and>
         (\<forall>buf records.
            np_frombuffer buf (dtype sub) = Inr records \<longrightarrow>
            concat records = buf \<and> list_all (\<lambda>r. length r = itemsize (dtype sub)) records)"
proof -
  from MessageAddLogged_init_parts [OF assms] obtain flat dtype_list
    where flat: "parse_nested_type (recursion_limit rt) [] (message_name sub) mf ([], -1)
                   = Inr (flat, timestamp_idx sub)"
      and fd: "field_data sub = remove_padding flat"
      and dl: "dtype_list_loop (field_data sub) [] = Inr dtype_list"
      and dt: "np_dtype dtype_list = Inr (dtype sub)"
    by blast
  from dtype_list_loop_itemsize [OF dl] np_dtype_itemsize [OF dt]
  have size: "itemsize (dtype sub) = field_widths (field_data sub)"
    by (simp add: itemsize_def)
  from remove_padding_decomp [of flat] fd obtain dropped
    where d: "flat = field_data sub @ dropped"
             "list_all (\<lambda>f. startswith (field_name f) ''_padding'') dropped"
    by auto
  from d(1) size have "field_widths flat = itemsize (dtype sub) + field_widths dropped"
    by (simp add: field_widths_append)
  moreover from remove_padding_last [of flat] fd
  have "field_data sub = [] \<or> \<not> startswith (field_name (last (field_data sub))) ''_padding''"
    by simp
  ultimately show ?thesis using flat d size np_frombuffer_records by blast
qed

text \<open>A format with a filler field of 7 bytes at the end, and the payload of an
  add-logged message for it (multi-instance id 0, message id 0).\<close>

definition padded_formats :: "(string \<times> message_format) list" where
  "padded_formats =
     [(''t'', \<lparr>format_name = ''t'',
               format_fields = [(''uint64_t'', 1, ''timestamp''), (''uint8_t'', 1, ''x''),
                                (''uint8_t'', 7, ''_padding0'')]\<rparr>)]"

definition add_logged_t :: bytes where
  "add_logged_t = [CHR 0x00, CHR 0x00, CHR 0x00] @ ''t''"

definition padded_subscription :: MessageAddLogged where
  "padded_subscription =
     \<lparr>multi_id = 0, msg_id = 0, message_name = ''t'',
      field_data = [\<lparr>field_name = ''timestamp'', type_str = ''uint64_t''\<rparr>,
                    \<lparr>field_name = ''x'', type_str = ''uint8_t''\<rparr>],
      timestamp_idx = 0, timestamp_offset = 0, buffer = [],
      dtype = [(''timestamp'', np_uint64), (''x'', np_uint8)]\<rparr>"

lemma padded_subscription_init:
  "MessageAddLogged_init example_runtime add_logged_t padded_formats = Inr padded_subscription"
  by code_simp

theorem record_size_is_emitted_width_witness:
  "MessageAddLogged_init example_runtime add_logged_t padded_formats = Inr padded_subscription \<and>
   itemsize (dtype padded_subscription) = field_widths (field_data padded_subscription) \<and>
   itemsize (dtype padded_subscription) = 9 \<and>
   \<not> startswith (field_name (last (field_data padded_subscription))) ''_padding'' \<and>
   (\<exists>dropped.
      parse_nested_type (recursion_limit example_runtime) [] ''t'' padded_formats ([], -1)
        = Inr (field_data padded_subscription @ dropped, 0) \<and>
      list_all (\<lambda>f. startswith (field_name f) ''_padding'') dropped \<and>
      field_widths (field_data padded_subscription @ dropped) = 9 + field_widths dropped \<and>
      field_widths dropped = 7)"
proof -
  note t = record_size_is_emitted_width [OF padded_subscription_init]
  from t have w: "itemsize (dtype padded_subscription) = field_widths (field_data padded_subscription)"
    by blast
  have nine: "itemsize (dtype padded_subscription) = 9"
    by (simp add: padded_subscription_def itemsize_def)
  have ne: "field_data padded_subscription \<noteq> []"
    by (simp add: padded_subscription_def)
  from t ne have l: "\<not> startswith (field_name (last (field_data padded_subscription))) ''_padding''"
    by blast
  have nm: "message_name padded_subscription = ''t''" "timestamp_idx padded_subscription = 0"
    by (simp_all add: padded_subscription_def)
  from t obtain flat dropped
    where f: "parse_nested_type (recursion_limit example_runtime) [] (message_name padded_subscription)
                padded_formats ([], -1) = Inr (flat, timestamp_idx padded_subscription)"
      and d: "flat = field_data padded_subscription @ dropped"
             "list_all (\<lambda>f. startswith (field_name f) ''_padding'') dropped"
             "field_widths flat = itemsize (dtype padded_subscription) + field_widths dropped"
    by blast
  have total: "map_sum id (\<lambda>(flat, idx). field_widths flat)
     (parse_nested_type (recursion_limit example_runtime) [] ''t'' padded_formats ([], -1)) = Inr 16"
    by code_simp
  from total f nm have "field_widths flat = 16" by simp
  with d(3) nine have seven: "field_widths dropped = 7" by simp
  have e: "\<exists>dropped.
      parse_nested_type (recursion_limit example_runtime) [] ''t'' padded_formats ([], -1)
        = Inr (field_data padded_subscription @ dropped, 0) \<and>
      list_all (\<lambda>f. startswith (field_name f) ''_padding'') dropped \<and>
      field_widths (field_data padded_subscription @ dropped) = 9 + field_widths dropped \<and>
      field_widths dropped = 7"
    using f d seven nine nm by (intro exI [of _ dropped]) simp
  show ?thesis by (intro conjI padded_subscription_init w nine l e)
qed

text \<open>
  The same format in a file with two data records of 9 bytes each (timestamps 5
  and 6, \<^verbatim>\<open>x\<close> 9 and 10). The unfiltered flattened list is 16 bytes wide, the
  stride of the subscription is 9, and the buffer of 18 bytes becomes two records.
\<close>

definition padded_file :: bytes where
  "padded_file =
     example_header @
     message CHR ''F'' ''t:uint64_t timestamp;uint8_t x;uint8_t[7] _padding0;'' @
     message CHR ''A'' add_logged_t @
     message CHR ''D'' ([CHR 0x00, CHR 0x00,
                         CHR 0x05, CHR 0x00, CHR 0x00, CHR 0x00, CHR 0x00, CHR 0x00, CHR 0x00, CHR 0x00,
                         CHR 0x09]) @
     message CHR ''D'' ([CHR 0x00, CHR 0x00,
                         CHR 0x06, CHR 0x00, CHR 0x00, CHR 0x00, CHR 0x00, CHR 0x00, CHR 0x00, CHR 0x00,
                         CHR 0x0A])"

theorem record_size_counterexample:
  "map_sum id (\<lambda>(flat, idx). field_widths flat)
     (parse_nested_type 1000 [] ''t'' padded_formats ([], -1)) = Inr 16 \<and>
   map_sum id (\<lambda>sub. itemsize (dtype sub))
     (MessageAddLogged_init example_runtime add_logged_t padded_formats) = Inr 9 \<and>
   map_sum id message_formats (load_file example_runtime padded_file None) = Inr padded_formats \<and>
   map_sum id data_list (load_file example_runtime padded_file None) =
     Inr [\<lparr>data_multi_id = 0, data_name = ''t'',
           data_field_data = [\<lparr>field_name = ''timestamp'', type_str = ''uint64_t''\<rparr>,
                              \<lparr>field_name = ''x'', type_str = ''uint8_t''\<rparr>],
           data_timestamp_idx = 0,
           data_data = [(''timestamp'', [NpInt 5, NpInt 6]), (''x'', [NpInt 9, NpInt 10])]\<rparr>]"
  by code_simp

section \<open>Messages at the current position\<close>

text \<open>A complete message stands at the current position of the file.\<close>

lemma read_at:
  assumes "drop (pos fh) (content fh) = xs @ ys"
  shows "read (length xs) fh = (xs, fh\<lparr>pos := pos fh + length xs\<rparr>)"
  using assms by (simp add: read_def Let_def)

lemma read_rest:
  assumes "drop (pos fh) (content fh) = xs" "length xs \<le> n"
  shows "read n fh = (xs, fh\<lparr>pos := pos fh + length xs\<rparr>)"
  using assms by (simp add: read_def Let_def)

lemma read_file_data_body_complete:
  assumes at: "drop (pos (file_handle self)) (content (file_handle self)) = header @ payload @ rest"
    and hd: "MessageHeader_initialize header = Inr (length payload, msg_type)"
  shows "read_file_data_body rt flt self =
           read_file_data_message rt flt msg_type payload
             (self\<lparr>file_handle := file_handle self
                \<lparr>pos := pos (file_handle self) + 3 + length payload\<rparr>\<rparr>)"
proof -
  have l: "length header = 3" using hd by (rule header_initialize_length)
  let ?fh1 = "(file_handle self)\<lparr>pos := pos (file_handle self) + 3\<rparr>"
  have r1: "read 3 (file_handle self) = (header, ?fh1)"
    using read_at [OF at] l by simp
  have "drop (pos ?fh1) (content ?fh1) = payload @ rest"
    using at l by (simp add: add.commute drop_drop [symmetric] del: drop_drop)
  from read_at [OF this]
  have r2: "read (length payload) ?fh1 = (payload, ?fh1\<lparr>pos := pos ?fh1 + length payload\<rparr>)" .
  show ?thesis
    unfolding read_file_data_body_def r1 by (simp add: hd r2 Let_def)
qed

lemma read_file_data_body_truncated:
  assumes at: "drop (pos (file_handle self)) (content (file_handle self)) = header @ partial"
    and hd: "MessageHeader_initialize header = Inr (msg_size, msg_type)"
    and short: "length partial < msg_size"
  shows "read_file_data_body rt flt self =
           Break (self\<lparr>file_handle := file_handle self
                    \<lparr>pos := pos (file_handle self) + 3 + length partial\<rparr>\<rparr>)"
proof -
  have l: "length header = 3" using hd by (rule header_initialize_length)
  let ?fh1 = "(file_handle self)\<lparr>pos := pos (file_handle self) + 3\<rparr>"
  have r1: "read 3 (file_handle self) = (header, ?fh1)"
    using read_at [OF at] l by simp
  have "drop (pos ?fh1) (content ?fh1) = partial"
    using at l by (simp add: add.commute drop_drop [symmetric] del: drop_drop)
  from read_rest [OF this] short
  have r2: "read msg_size ?fh1 = (partial, ?fh1\<lparr>pos := pos ?fh1 + length partial\<rparr>)" by simp
  show ?thesis
    unfolding read_file_data_body_def r1 using short by (simp add: hd r2 Let_def)
qed

lemma read_file_definitions_body_rewinds:
  assumes at: "drop (pos (file_handle self)) (content (file_handle self)) = header @ payload @ rest"
    and hd: "MessageHeader_initialize header = Inr (length payload, msg_type)"
    and ty: "msg_type = MSG_TYPE_ADD_LOGGED_MSG \<or> msg_type = MSG_TYPE_LOGGING"
  shows "read_file_definitions_body rt self = Break self"
proof -
  have l: "length header = 3" using hd by (rule header_initialize_length)
  let ?fh1 = "(file_handle self)\<lparr>pos := pos (file_handle self) + 3\<rparr>"
  have r1: "read 3 (file_handle self) = (header, ?fh1)"
    using read_at [OF at] l by simp
  have "drop (pos ?fh1) (content ?fh1) = payload @ rest"
    using at l by (simp add: add.commute drop_drop [symmetric] del: drop_drop)
  from read_at [OF this]
  have r2: "read (length payload) ?fh1 = (payload, ?fh1\<lparr>pos := pos ?fh1 + length payload\<rparr>)" .
  have ne: "header \<noteq> []" using l by auto
  have types: "MSG_TYPE_ADD_LOGGED_MSG \<noteq> MSG_TYPE_INFO" "MSG_TYPE_ADD_LOGGED_MSG \<noteq> MSG_TYPE_FORMAT"
    "MSG_TYPE_ADD_LOGGED_MSG \<noteq> MSG_TYPE_PARAMETER" "MSG_TYPE_LOGGING \<noteq> MSG_TYPE_INFO"
    "MSG_TYPE_LOGGING \<noteq> MSG_TYPE_FORMAT" "MSG_TYPE_LOGGING \<noteq> MSG_TYPE_PARAMETER"
    by (simp_all add: MSG_TYPE_ADD_LOGGED_MSG_def MSG_TYPE_INFO_def MSG_TYPE_FORMAT_def
          MSG_TYPE_PARAMETER_def MSG_TYPE_LOGGING_def)
  show ?thesis
    unfolding read_file_definitions_body_def r1 using ty ne types
    by (auto simp: hd r2 Let_def seek_cur_def)
qed


section \<open>The end of the definitions section (C8)\<close>

text \<open>
  When the add-logged or logging message that ends the definitions section stands
  completely in the file, the loop leaves the object as it was before the message
  was read, and the first pass of the data section handles exactly this message.
\<close>

lemma read_file_definitions_stops_before_message:
  assumes at: "drop (pos (file_handle self)) (content (file_handle self)) = header @ payload @ rest"
    and hd: "MessageHeader_initialize header = Inr (length payload, msg_type)"
    and ty: "msg_type = MSG_TYPE_ADD_LOGGED_MSG \<or> msg_type = MSG_TYPE_LOGGING"
  shows "read_file_definitions_loop rt self = Inr self \<and>
         read_file_data_body rt flt self =
           read_file_data_message rt flt msg_type payload
             (self\<lparr>file_handle := file_handle self
                \<lparr>pos := pos (file_handle self) + 3 + length payload\<rparr>\<rparr>)"
  using read_file_definitions_body_rewinds [OF at hd ty] read_file_data_body_complete [OF at hd]
  by (simp add: read_file_definitions_loop.simps [of rt self])

text \<open>Two files that end inside the payload of their first add-logged message.
  The first has nothing but the header before it. In the second an info message
  of 37 bytes stands before it, so that the add-logged message begins at byte 53;
  it announces 20 bytes of payload, of which none is there.\<close>

definition truncated_add_logged_file :: bytes where
  "truncated_add_logged_file = example_header @ [CHR 0x64, CHR 0x00, CHR ''A'']"

definition info_then_truncated_file :: bytes where
  "info_then_truncated_file =
     example_header @
     message CHR ''I'' ([CHR 0x0D] @ ''char[20] name'' @ ''abcdefghijklmnopqrst'') @
     [CHR 0x14, CHR 0x00, CHR ''A'']"

text \<open>
  C8. The definitions section is to stop at the first add-logged or logging message
  without consuming it, so that the data section reads this message first. The
  code seeks back by 3 bytes plus the announced payload length, also when fewer
  payload bytes were read: on the first file the target position is negative and
  \<^verbatim>\<open>OSError\<close> leaves the parser; on the second the data section starts at byte
  33, inside the info message, and not at byte 53 where the add-logged message
  begins.
\<close>

theorem read_file_definitions_rewind_truncated:
  "load_file example_runtime truncated_add_logged_file None = Inl OSError \<and>
   drop 53 info_then_truncated_file = [CHR 0x14, CHR 0x00, CHR ''A''] \<and>
   map_sum id (pos \<circ> file_handle)
     (exc_bind (read_file_header (ULog_new info_then_truncated_file))
        (read_file_definitions_loop example_runtime)) = Inr 33"
  by code_simp

section \<open>The passes of the data section\<close>

text \<open>The object after \<open>n\<close> complete passes through the loop of the data section
  (\<open>None\<close> when the loop has ended before).\<close>

fun data_passes :: "runtime \<Rightarrow> string list option \<Rightarrow> nat \<Rightarrow> ULog \<Rightarrow> ULog option" where
  "data_passes rt flt 0 self = Some self"
| "data_passes rt flt (Suc n) self =
     (case read_file_data_body rt flt self of
        Continue self' \<Rightarrow> data_passes rt flt n self'
      | Break self' \<Rightarrow> None
      | Raise e self' \<Rightarrow> None)"

lemma read_file_data_loop_after_passes:
  "data_passes rt flt n self = Some self' \<Longrightarrow>
   read_file_data_loop rt flt self = read_file_data_loop rt flt self'"
proof (induction n arbitrary: self)
  case 0
  then show ?case by simp
next
  case (Suc n)
  then obtain s1 where b: "read_file_data_body rt flt self = Continue s1"
    and p: "data_passes rt flt n s1 = Some self'"
    by (auto split: control.splits)
  from Suc.IH [OF p] b show ?case
    by (simp add: read_file_data_loop.simps [of rt flt self])
qed

lemma data_passes_rule:
  assumes step: "\<forall>s s'. P s \<longrightarrow> read_file_data_body rt flt s = Continue s' \<longrightarrow> P s'"
    and init: "P self"
    and res: "data_passes rt flt n self = Some self'"
  shows "P self'"
  using init res
proof (induction n arbitrary: self)
  case 0
  then show ?case by simp
next
  case (Suc n)
  then obtain s1 where b: "read_file_data_body rt flt self = Continue s1"
    and p: "data_passes rt flt n s1 = Some self'"
    by (auto split: control.splits)
  from step Suc.prems(1) b have "P s1" by blast
  from Suc.IH [OF this p] show ?case .
qed

text \<open>What a pass does to the object apart from what the message does: the file
  position.\<close>

lemma read_file_data_body_cases:
  assumes "read_file_data_body rt flt self = r"
  shows "(\<exists>fh. r = Raise StructError (self\<lparr>file_handle := fh\<rparr>)) \<or>
         (\<exists>fh. r = Break (self\<lparr>file_handle := fh\<rparr>)) \<or>
         (\<exists>fh msg_type data. r = read_file_data_message rt flt msg_type data (self\<lparr>file_handle := fh\<rparr>))"
proof -
  obtain d fh1 where r1: "read 3 (file_handle self) = (d, fh1)" by (cases "read 3 (file_handle self)")
  show ?thesis
  proof (cases "MessageHeader_initialize d")
    case (Inl e)
    then have "e = StructError"
      by (auto simp: MessageHeader_initialize_def unpack_ushort_byte_def split: if_splits)
    with Inl assms r1 have "r = Raise StructError (self\<lparr>file_handle := fh1\<rparr>)"
      by (simp add: read_file_data_body_def)
    then show ?thesis by blast
  next
    case (Inr p)
    obtain sz ty where p: "p = (sz, ty)" by (cases p)
    obtain d2 fh2 where r2: "read sz fh1 = (d2, fh2)" by (cases "read sz fh1")
    show ?thesis
    proof (cases "length d2 < sz")
      case True
      with Inr p assms r1 r2 have "r = Break (self\<lparr>file_handle := fh2\<rparr>)"
        by (simp add: read_file_data_body_def)
      then show ?thesis by blast
    next
      case False
      with Inr p assms r1 r2
      have "r = read_file_data_message rt flt ty d2 (self\<lparr>file_handle := fh2\<rparr>)"
        by (simp add: read_file_data_body_def)
      then show ?thesis by blast
    qed
  qed
qed

lemma read_file_data_message_never_breaks:
  "read_file_data_message rt flt ty data self \<noteq> Break self'"
  unfolding read_file_data_message_def
  by (auto split: sum.splits prod.splits option.splits)

text \<open>The effect of one message on the last timestamp and on the changed
  parameters.\<close>

lemma MessageData_initialize_Inr_other:
  "MessageData_initialize data self = Inr (ts, self') \<Longrightarrow>
   changed_parameters self' = changed_parameters self \<and>
   last_timestamp self' = last_timestamp self \<and> start_timestamp self' = start_timestamp self"
  by (auto simp: MessageData_initialize_def Let_def split: sum.splits option.splits if_splits)

lemma MessageData_initialize_Inl_other:
  "MessageData_initialize data self = Inl (e, self') \<Longrightarrow>
   changed_parameters self' = changed_parameters self \<and>
   last_timestamp self' = last_timestamp self \<and> start_timestamp self' = start_timestamp self"
  by (auto simp: MessageData_initialize_def Let_def split: sum.splits option.splits if_splits)

lemma read_file_data_message_last_timestamp:
  assumes "read_file_data_message rt flt ty data self = r" "r = Continue self' \<or> r = Raise e self'"
  shows "last_timestamp self \<le> last_timestamp self' \<and>
         (last_timestamp self' \<noteq> last_timestamp self \<longrightarrow>
            ty = MSG_TYPE_DATA \<and>
            (\<exists>s1. MessageData_initialize data self = Inr (last_timestamp self', s1)) \<and>
            last_timestamp self' \<noteq> 0 \<and> last_timestamp self < last_timestamp self')"
  using assms unfolding read_file_data_message_def
  by (auto split: if_splits sum.splits prod.splits
           dest: MessageData_initialize_Inr_other MessageData_initialize_Inl_other)

lemma read_file_data_message_changed_parameters:
  assumes "read_file_data_message rt flt ty data self = r" "r = Continue self' \<or> r = Raise e self'"
  shows "changed_parameters self' = changed_parameters self \<or>
         (ty = MSG_TYPE_PARAMETER \<and> last_timestamp self' = last_timestamp self \<and>
          (\<exists>msg_info. MessageInfo_init data = Inr msg_info \<and>
             changed_parameters self' = changed_parameters self @
               [(last_timestamp self, info_key msg_info, info_value msg_info)]))"
  using assms unfolding read_file_data_message_def
  by (auto split: if_splits sum.splits prod.splits
           dest: MessageData_initialize_Inr_other MessageData_initialize_Inl_other)


lemma read_file_header_fresh:
  assumes "read_file_header (ULog_new c) = Inr h"
  shows "changed_parameters h = [] \<and> subscriptions h = [] \<and> data_list h = [] \<and>
         filtered_message_ids h = {} \<and> missing_message_ids h = {} \<and>
         last_timestamp h = 0 \<and>
         (stdout h = [] \<or> stdout h = [UnknownFileVersion])"
  using assms unfolding read_file_header_def Let_def
  by (auto simp: ULog_new_def exc_bind_Inr_iff split: prod.splits if_splits)

lemma read_file_definitions_body_keeps:
  assumes "read_file_definitions_body rt s = Continue s' \<or> read_file_definitions_body rt s = Break s'"
  shows "changed_parameters s' = changed_parameters s \<and> subscriptions s' = subscriptions s \<and>
         data_list s' = data_list s \<and> filtered_message_ids s' = filtered_message_ids s \<and>
         missing_message_ids s' = missing_message_ids s \<and> stdout s' = stdout s"
  using assms unfolding read_file_definitions_body_def Let_def
  by (auto split: prod.splits if_splits sum.splits)

lemma read_file_definitions_loop_keeps:
  assumes "read_file_definitions_loop rt s = Inr s'"
  shows "changed_parameters s' = changed_parameters s \<and> subscriptions s' = subscriptions s \<and>
         data_list s' = data_list s \<and> filtered_message_ids s' = filtered_message_ids s \<and>
         missing_message_ids s' = missing_message_ids s \<and> stdout s' = stdout s"
proof -
  let ?P = "\<lambda>u. changed_parameters u = changed_parameters s \<and> subscriptions u = subscriptions s \<and>
         data_list u = data_list s \<and> filtered_message_ids u = filtered_message_ids s \<and>
         missing_message_ids u = missing_message_ids s \<and> stdout u = stdout s"
  have "?P s'"
  proof (rule read_file_definitions_loop_rule [where P = ?P and Q = ?P, OF _ _ _ assms])
    show "\<forall>u u'. ?P u \<longrightarrow> read_file_definitions_body rt u = Continue u' \<longrightarrow> ?P u'"
      using read_file_definitions_body_keeps by metis
    show "\<forall>u u'. ?P u \<longrightarrow> read_file_definitions_body rt u = Break u' \<longrightarrow> ?P u'"
      using read_file_definitions_body_keeps by metis
    show "?P s" by simp
  qed
  then show ?thesis .
qed

lemma read_file_data_body_last_timestamp:
  assumes "read_file_data_body rt flt self = r" "r = Continue self' \<or> r = Break self' \<or> r = Raise e self'"
  shows "last_timestamp self \<le> last_timestamp self'"
proof -
  from read_file_data_body_cases [OF assms(1)]
  consider fh where "r = Raise StructError (self\<lparr>file_handle := fh\<rparr>)"
    | fh where "r = Break (self\<lparr>file_handle := fh\<rparr>)"
    | fh ty data where "r = read_file_data_message rt flt ty data (self\<lparr>file_handle := fh\<rparr>)"
    by blast
  then show ?thesis
  proof cases
    case 1
    with assms(2) show ?thesis by auto
  next
    case 2
    with assms(2) show ?thesis by auto
  next
    case 3
    with assms(2) read_file_data_message_never_breaks
    have "r = Continue self' \<or> r = Raise e self'" by metis
    from read_file_data_message_last_timestamp [OF 3 [symmetric] this] show ?thesis by simp
  qed
qed

text \<open>The order of the timestamps of an object: the start timestamp is at most
  the last timestamp, and the changed parameters carry timestamps between the two,
  in non-decreasing order.\<close>

definition timestamps_ordered :: "ULog \<Rightarrow> bool" where
  "timestamps_ordered self =
     (start_timestamp self \<le> last_timestamp self \<and>
      sorted (map fst (changed_parameters self)) \<and>
      list_all (\<lambda>(t, k, v). start_timestamp self \<le> t \<and> t \<le> last_timestamp self)
               (changed_parameters self))"

lemma timestamps_ordered_message:
  assumes inv: "timestamps_ordered self"
    and r: "read_file_data_message rt flt ty data self = r" "r = Continue self' \<or> r = Raise e self'"
  shows "timestamps_ordered self'"
proof -
  from read_file_data_message_last_timestamp [OF r]
  have mono: "last_timestamp self \<le> last_timestamp self'" by simp
  from read_file_data_message_start [OF r(1)] r(2)
  have st: "start_timestamp self' = start_timestamp self" by blast
  from inv have a: "start_timestamp self \<le> last_timestamp self"
    and b: "sorted (map fst (changed_parameters self))"
    and c: "list_all (\<lambda>(t, k, v). start_timestamp self \<le> t \<and> t \<le> last_timestamp self)
               (changed_parameters self)"
    by (simp_all add: timestamps_ordered_def)
  from c mono have c': "list_all (\<lambda>(t, k, v). start_timestamp self \<le> t \<and> t \<le> last_timestamp self')
               (changed_parameters self)"
    by (auto simp: list_all_iff)
  from read_file_data_message_changed_parameters [OF r]
  show ?thesis
  proof
    assume "changed_parameters self' = changed_parameters self"
    with a b c' mono st show ?thesis by (simp add: timestamps_ordered_def)
  next
    assume "ty = MSG_TYPE_PARAMETER \<and> last_timestamp self' = last_timestamp self \<and>
          (\<exists>msg_info. MessageInfo_init data = Inr msg_info \<and>
             changed_parameters self' = changed_parameters self @
               [(last_timestamp self, info_key msg_info, info_value msg_info)])"
    then obtain k v where cp: "changed_parameters self' = changed_parameters self @ [(last_timestamp self, k, v)]"
      and l: "last_timestamp self' = last_timestamp self" by blast
    from c have "\<forall>x \<in> set (map fst (changed_parameters self)). x \<le> last_timestamp self"
      by (auto simp: list_all_iff)
    with b have "sorted (map fst (changed_parameters self) @ [last_timestamp self])"
      by (simp add: sorted_append)
    with a c st l cp show ?thesis by (simp add: timestamps_ordered_def)
  qed
qed

lemma timestamps_ordered_file_handle [simp]:
  "timestamps_ordered (self\<lparr>file_handle := fh\<rparr>) = timestamps_ordered self"
  by (simp add: timestamps_ordered_def)

lemma timestamps_ordered_body:
  assumes inv: "timestamps_ordered self"
    and r: "read_file_data_body rt flt self = r" "r = Continue self' \<or> r = Break self' \<or> r = Raise e self'"
  shows "timestamps_ordered self'"
proof -
  from read_file_data_body_cases [OF r(1)]
  consider fh where "r = Raise StructError (self\<lparr>file_handle := fh\<rparr>)"
    | fh where "r = Break (self\<lparr>file_handle := fh\<rparr>)"
    | fh ty data where "r = read_file_data_message rt flt ty data (self\<lparr>file_handle := fh\<rparr>)"
    by blast
  then show ?thesis
  proof cases
    case 1
    with r(2) inv show ?thesis by auto
  next
    case 2
    with r(2) inv show ?thesis by auto
  next
    case 3
    with r(2) read_file_data_message_never_breaks
    have "r = Continue self' \<or> r = Raise e self'" by metis
    from timestamps_ordered_message [OF _ 3 [symmetric] this] inv show ?thesis by simp
  qed
qed

lemma timestamps_ordered_read_file_data:
  assumes inv: "timestamps_ordered self" and r: "read_file_data rt flt self = Inr self'"
  shows "timestamps_ordered self'"
proof -
  have loop: "case read_file_data_loop rt flt self of
           Continue s' \<Rightarrow> False | Break s' \<Rightarrow> timestamps_ordered s' | Raise e s' \<Rightarrow> timestamps_ordered s'"
    by (rule read_file_data_loop_rule [where P = timestamps_ordered, OF _ _ _ inv])
       (use timestamps_ordered_body in blast)+
  have conv: "timestamps_ordered u'" if "timestamps_ordered u" "convert_subscriptions u = Inr u'" for u u'
    by (rule convert_subscriptions_rule [where P = timestamps_ordered, OF _ that])
       (simp add: timestamps_ordered_def)
  from r loop conv show ?thesis
    by (auto simp: read_file_data_def split: control.splits if_splits)
qed

lemma load_file_data_section_start:
  assumes h: "read_file_header (ULog_new c) = Inr h"
    and d: "read_file_definitions_loop rt (h\<lparr>last_timestamp := start_timestamp h\<rparr>) = Inr d"
  shows "last_timestamp d = start_timestamp h \<and> start_timestamp d = start_timestamp h \<and>
         changed_parameters d = []"
  using read_file_definitions_loop_timestamps [OF d] read_file_definitions_loop_keeps [OF d]
    read_file_header_fresh [OF h]
  by simp

lemma load_file_timestamps_ordered:
  assumes "load_file rt c flt = Inr u"
  shows "timestamps_ordered u"
proof -
  from assms obtain h d where h: "read_file_header (ULog_new c) = Inr h"
    and d: "read_file_definitions_loop rt (h\<lparr>last_timestamp := start_timestamp h\<rparr>) = Inr d"
    and u: "read_file_data rt flt d = Inr u"
    by (auto simp: load_file_def exc_bind_Inr_iff)
  from load_file_data_section_start [OF h d] have "timestamps_ordered d"
    by (simp add: timestamps_ordered_def)
  from timestamps_ordered_read_file_data [OF this u] show ?thesis .
qed

section \<open>The last timestamp (C7)\<close>

text \<open>
  C7. The last timestamp never decreases during the parse. When a file loads,
  the object it returns is the result of the data section run on the object that
  the definitions section has left, and in that object the last timestamp is the
  start timestamp of the header (which the definitions section does not change)
  and there are no changed parameters: the last timestamp is initialized to the
  start timestamp. No pass through the loop of the data section lowers
  the last timestamp, and so it is after any number of passes. A message changes it
  only when it is a data message whose record has a timestamp that is not zero and
  greater than the current value, and the new value is that timestamp. A parameter
  message of the data section appends one changed parameter, stamped with the
  last timestamp current at that moment. In the loaded object the start timestamp
  is at most the last timestamp, and the changed parameters carry timestamps
  between the two in non-decreasing order.
\<close>

theorem last_timestamp_monotone:
  "(\<forall>h d. read_file_header (ULog_new c) = Inr h \<and>
          read_file_definitions_loop rt (h\<lparr>last_timestamp := start_timestamp h\<rparr>) = Inr d \<longrightarrow>
          last_timestamp d = start_timestamp h \<and> start_timestamp d = start_timestamp h \<and>
          changed_parameters d = []) \<and>
   (\<forall>r s' e. read_file_data_body rt flt s = r \<and> (r = Continue s' \<or> r = Break s' \<or> r = Raise e s') \<longrightarrow>
          last_timestamp s \<le> last_timestamp s') \<and>
   (\<forall>n s'. data_passes rt flt n s = Some s' \<longrightarrow> last_timestamp s \<le> last_timestamp s') \<and>
   (\<forall>r s' e. read_file_data_message rt flt msg_type data s = r \<and> (r = Continue s' \<or> r = Raise e s') \<longrightarrow>
          (last_timestamp s' \<noteq> last_timestamp s \<longrightarrow>
             msg_type = MSG_TYPE_DATA \<and>
             (\<exists>s1. MessageData_initialize data s = Inr (last_timestamp s', s1)) \<and>
             last_timestamp s' \<noteq> 0 \<and> last_timestamp s < last_timestamp s') \<and>
          (changed_parameters s' = changed_parameters s \<or>
             (msg_type = MSG_TYPE_PARAMETER \<and> last_timestamp s' = last_timestamp s \<and>
              (\<exists>msg_info. MessageInfo_init data = Inr msg_info \<and>
                 changed_parameters s' = changed_parameters s @
                   [(last_timestamp s, info_key msg_info, info_value msg_info)])))) \<and>
   (\<forall>u. load_file rt c flt = Inr u \<longrightarrow>
          start_timestamp u \<le> last_timestamp u \<and>
          sorted (map fst (changed_parameters u)) \<and>
          list_all (\<lambda>(t, k, v). start_timestamp u \<le> t \<and> t \<le> last_timestamp u)
                   (changed_parameters u)) \<and>
   (\<forall>u. load_file rt c flt = Inr u \<longrightarrow>
          (\<exists>h d. read_file_header (ULog_new c) = Inr h \<and>
                 read_file_definitions_loop rt (h\<lparr>last_timestamp := start_timestamp h\<rparr>) = Inr d \<and>
                 last_timestamp d = start_timestamp h \<and>
                 start_timestamp d = start_timestamp h \<and>
                 start_timestamp u = start_timestamp h \<and>
                 changed_parameters d = [] \<and>
                 read_file_data rt flt d = Inr u \<and>
                 (\<forall>n s'. data_passes rt flt n d = Some s' \<longrightarrow>
                         start_timestamp h \<le> last_timestamp s')))"
proof (intro conjI allI impI)
  fix u
  assume l: "load_file rt c flt = Inr u"
  then obtain h d where h: "read_file_header (ULog_new c) = Inr h"
    and d: "read_file_definitions_loop rt (h\<lparr>last_timestamp := start_timestamp h\<rparr>) = Inr d"
    and u: "read_file_data rt flt d = Inr u"
    by (auto simp: load_file_def exc_bind_Inr_iff)
  note st = load_file_data_section_start [OF h d]
  have passes: "\<forall>n s'. data_passes rt flt n d = Some s' \<longrightarrow> start_timestamp h \<le> last_timestamp s'"
  proof (intro allI impI)
    fix n s' assume p: "data_passes rt flt n d = Some s'"
    show "start_timestamp h \<le> last_timestamp s'"
    proof (rule data_passes_rule [where P = "\<lambda>x. start_timestamp h \<le> last_timestamp x", OF _ _ p])
      show "\<forall>x x'. start_timestamp h \<le> last_timestamp x \<longrightarrow>
              read_file_data_body rt flt x = Continue x' \<longrightarrow> start_timestamp h \<le> last_timestamp x'"
        using read_file_data_body_last_timestamp le_trans by blast
      show "start_timestamp h \<le> last_timestamp d" using st by simp
    qed
  qed
  from load_file_start_timestamp [OF l h] have "start_timestamp u = start_timestamp h" .
  with h d u st passes
  show "\<exists>h d. read_file_header (ULog_new c) = Inr h \<and>
                 read_file_definitions_loop rt (h\<lparr>last_timestamp := start_timestamp h\<rparr>) = Inr d \<and>
                 last_timestamp d = start_timestamp h \<and>
                 start_timestamp d = start_timestamp h \<and>
                 start_timestamp u = start_timestamp h \<and>
                 changed_parameters d = [] \<and>
                 read_file_data rt flt d = Inr u \<and>
                 (\<forall>n s'. data_passes rt flt n d = Some s' \<longrightarrow>
                         start_timestamp h \<le> last_timestamp s')"
    by blast
next
  fix h d
  assume "read_file_header (ULog_new c) = Inr h \<and>
          read_file_definitions_loop rt (h\<lparr>last_timestamp := start_timestamp h\<rparr>) = Inr d"
  then have "last_timestamp d = start_timestamp h \<and> start_timestamp d = start_timestamp h \<and>
         changed_parameters d = []"
    using load_file_data_section_start by blast
  then show "last_timestamp d = start_timestamp h" "start_timestamp d = start_timestamp h"
    "changed_parameters d = []" by simp_all
next
  fix r s' e
  assume "read_file_data_body rt flt s = r \<and> (r = Continue s' \<or> r = Break s' \<or> r = Raise e s')"
  then show "last_timestamp s \<le> last_timestamp s'"
    using read_file_data_body_last_timestamp by blast
next
  fix n s'
  assume p: "data_passes rt flt n s = Some s'"
  show "last_timestamp s \<le> last_timestamp s'"
  proof (rule data_passes_rule [where P = "\<lambda>u. last_timestamp s \<le> last_timestamp u", OF _ _ p])
    show "\<forall>u u'. last_timestamp s \<le> last_timestamp u \<longrightarrow>
            read_file_data_body rt flt u = Continue u' \<longrightarrow> last_timestamp s \<le> last_timestamp u'"
      using read_file_data_body_last_timestamp le_trans by blast
  qed simp
next
  fix r s' e
  assume a: "read_file_data_message rt flt msg_type data s = r \<and> (r = Continue s' \<or> r = Raise e s')"
  assume "last_timestamp s' \<noteq> last_timestamp s"
  with a read_file_data_message_last_timestamp [of rt flt msg_type data s r s' e]
  show "msg_type = MSG_TYPE_DATA"
    "\<exists>s1. MessageData_initialize data s = Inr (last_timestamp s', s1)"
    "last_timestamp s' \<noteq> 0" "last_timestamp s < last_timestamp s'"
    by simp_all
next
  fix r s' e
  assume a: "read_file_data_message rt flt msg_type data s = r \<and> (r = Continue s' \<or> r = Raise e s')"
  with read_file_data_message_changed_parameters [of rt flt msg_type data s r s' e]
  show "changed_parameters s' = changed_parameters s \<or>
             (msg_type = MSG_TYPE_PARAMETER \<and> last_timestamp s' = last_timestamp s \<and>
              (\<exists>msg_info. MessageInfo_init data = Inr msg_info \<and>
                 changed_parameters s' = changed_parameters s @
                   [(last_timestamp s, info_key msg_info, info_value msg_info)]))"
    by simp
next
  fix u
  assume "load_file rt c flt = Inr u"
  from load_file_timestamps_ordered [OF this]
  show "start_timestamp u \<le> last_timestamp u" "sorted (map fst (changed_parameters u))"
    "list_all (\<lambda>(t, k, v). start_timestamp u \<le> t \<and> t \<le> last_timestamp u) (changed_parameters u)"
    by (simp_all add: timestamps_ordered_def)
qed

text \<open>A file with a data record (timestamp 773), a parameter message, a data record
  with the smaller timestamp 3 and a second parameter message: both changed
  parameters are stamped with 773. And a file whose data section has a logging
  message and a parameter message but no data record: the changed parameter is
  stamped with the start timestamp 513 of the header, which is the last timestamp
  of the loaded object.\<close>

definition parameters_file :: bytes where
  "parameters_file =
     example_header @
     message CHR ''F'' ''t:uint64_t timestamp;'' @
     message CHR ''A'' ([CHR 0x00, CHR 0x00, CHR 0x00] @ ''t'') @
     message CHR ''D'' ([CHR 0x00, CHR 0x00,
                         CHR 0x05, CHR 0x03, CHR 0x00, CHR 0x00, CHR 0x00, CHR 0x00, CHR 0x00, CHR 0x00]) @
     message CHR ''P'' ([CHR 0x09] @ ''int32_t A'' @ [CHR 0x01, CHR 0x00, CHR 0x00, CHR 0x00]) @
     message CHR ''D'' ([CHR 0x00, CHR 0x00,
                         CHR 0x03, CHR 0x00, CHR 0x00, CHR 0x00, CHR 0x00, CHR 0x00, CHR 0x00, CHR 0x00]) @
     message CHR ''P'' ([CHR 0x09] @ ''int32_t A'' @ [CHR 0x02, CHR 0x00, CHR 0x00, CHR 0x00])"

definition parameter_without_data_file :: bytes where
  "parameter_without_data_file =
     example_header @
     message CHR ''L'' ([CHR ''6'', CHR 0x01, CHR 0x00, CHR 0x00, CHR 0x00, CHR 0x00, CHR 0x00,
                         CHR 0x00, CHR 0x00] @ ''hi'') @
     message CHR ''P'' ([CHR 0x09] @ ''int32_t A'' @ [CHR 0x01, CHR 0x00, CHR 0x00, CHR 0x00])"

lemma parameters_file_loads:
  "map_sum id (\<lambda>u. (start_timestamp u, last_timestamp u, changed_parameters u))
     (load_file example_runtime parameters_file None) =
   Inr (513, 773, [(773, ''A'', PyInt 1), (773, ''A'', PyInt 2)])"
  by code_simp

lemma parameter_without_data_file_loads:
  "map_sum id (\<lambda>u. (start_timestamp u, last_timestamp u, changed_parameters u))
     (load_file example_runtime parameter_without_data_file None) =
   Inr (513, 513, [(513, ''A'', PyInt 1)])"
  by code_simp

theorem last_timestamp_monotone_witness:
  "(\<exists>u. load_file example_runtime parameters_file None = Inr u \<and>
        changed_parameters u = [(773, ''A'', PyInt 1), (773, ''A'', PyInt 2)] \<and>
        start_timestamp u = 513 \<and> last_timestamp u = 773 \<and>
        start_timestamp u \<le> last_timestamp u \<and>
        sorted (map fst (changed_parameters u))) \<and>
   (\<exists>u h d. load_file example_runtime parameter_without_data_file None = Inr u \<and>
        read_file_header (ULog_new parameter_without_data_file) = Inr h \<and>
        start_timestamp h = 513 \<and>
        last_timestamp d = start_timestamp h \<and>
        read_file_data example_runtime None d = Inr u \<and>
        last_timestamp u = 513 \<and>
        changed_parameters u = [(513, ''A'', PyInt 1)])"
proof -
  from parameters_file_loads obtain u
    where u: "load_file example_runtime parameters_file None = Inr u"
      and v: "start_timestamp u = 513" "last_timestamp u = 773"
             "changed_parameters u = [(773, ''A'', PyInt 1), (773, ''A'', PyInt 2)]"
    by (cases "load_file example_runtime parameters_file None") auto
  from last_timestamp_monotone [of parameters_file example_runtime] u
  have "start_timestamp u \<le> last_timestamp u \<and> sorted (map fst (changed_parameters u))"
    by blast
  with u v have first: "\<exists>u. load_file example_runtime parameters_file None = Inr u \<and>
        changed_parameters u = [(773, ''A'', PyInt 1), (773, ''A'', PyInt 2)] \<and>
        start_timestamp u = 513 \<and> last_timestamp u = 773 \<and>
        start_timestamp u \<le> last_timestamp u \<and>
        sorted (map fst (changed_parameters u))"
    by blast
  from parameter_without_data_file_loads obtain w
    where w: "load_file example_runtime parameter_without_data_file None = Inr w"
      and x: "start_timestamp w = 513" "last_timestamp w = 513"
             "changed_parameters w = [(513, ''A'', PyInt 1)]"
    by (cases "load_file example_runtime parameter_without_data_file None") auto
  note initialised = last_timestamp_monotone [of parameter_without_data_file example_runtime None,
      THEN conjunct2, THEN conjunct2, THEN conjunct2, THEN conjunct2, THEN conjunct2]
  from initialised [rule_format, OF w]
  obtain h d where hd: "read_file_header (ULog_new parameter_without_data_file) = Inr h"
    "last_timestamp d = start_timestamp h" "start_timestamp w = start_timestamp h"
    "read_file_data example_runtime None d = Inr w"
    by (elim exE conjE)
  from hd(3) x(1) have "start_timestamp h = 513" by simp
  with w x hd have second: "\<exists>u h d. load_file example_runtime parameter_without_data_file None = Inr u \<and>
        read_file_header (ULog_new parameter_without_data_file) = Inr h \<and>
        start_timestamp h = 513 \<and>
        last_timestamp d = start_timestamp h \<and>
        read_file_data example_runtime None d = Inr u \<and>
        last_timestamp u = 513 \<and>
        changed_parameters u = [(513, ''A'', PyInt 1)]"
    by blast
  from first second show ?thesis by (rule conjI)
qed

section \<open>Data records without a subscription (C4)\<close>

text \<open>The warning for a message id has been printed once if the id is in the set
  of the missing ids, and never otherwise.\<close>

definition warned_once :: "ULog \<Rightarrow> bool" where
  "warned_once self =
     (\<forall>mid. count_list (stdout self) (NoSubscriptionFound mid) =
             (if mid \<in> missing_message_ids self then 1 else 0))"

lemma warned_once_file_handle [simp]:
  "warned_once (self\<lparr>file_handle := fh\<rparr>) = warned_once self"
  by (simp add: warned_once_def)

lemma MessageData_initialize_unknown:
  assumes "unpack_ushort (slice 0 2 data) = Inr mid"
    and "map_of (subscriptions self) mid = None" "mid \<notin> filtered_message_ids self"
  shows "MessageData_initialize data self =
           Inr (0, if mid \<in> missing_message_ids self then self
                   else self\<lparr>missing_message_ids := insert mid (missing_message_ids self),
                             stdout := stdout self @ [NoSubscriptionFound mid]\<rparr>)"
  using assms by (simp add: MessageData_initialize_def)

lemma MessageData_initialize_warned:
  assumes "warned_once self"
    and "MessageData_initialize data self = Inr (ts, self') \<or>
         MessageData_initialize data self = Inl (e, self')"
  shows "warned_once self' \<and> missing_message_ids self \<subseteq> missing_message_ids self'"
  using assms unfolding MessageData_initialize_def Let_def
  by (auto simp: warned_once_def split: sum.splits option.splits if_splits)

lemma warned_once_message:
  assumes "warned_once self"
    and "read_file_data_message rt flt ty data self = r" "r = Continue self' \<or> r = Raise e self'"
  shows "warned_once self' \<and> missing_message_ids self \<subseteq> missing_message_ids self'"
proof (cases "ty = MSG_TYPE_DATA")
  case True
  have ne: "MSG_TYPE_DATA \<noteq> MSG_TYPE_PARAMETER" "MSG_TYPE_DATA \<noteq> MSG_TYPE_ADD_LOGGED_MSG"
    "MSG_TYPE_DATA \<noteq> MSG_TYPE_LOGGING"
    by (simp_all add: MSG_TYPE_DATA_def MSG_TYPE_PARAMETER_def MSG_TYPE_ADD_LOGGED_MSG_def
          MSG_TYPE_LOGGING_def)
  from assms(2,3) True ne
  have "(\<exists>ts s1. MessageData_initialize data self = Inr (ts, s1) \<and>
            (self' = s1 \<or> self' = s1\<lparr>last_timestamp := ts\<rparr>)) \<or>
        MessageData_initialize data self = Inl (e, self')"
    unfolding read_file_data_message_def
    by (auto split: sum.splits prod.splits if_splits)
  then show ?thesis
  proof
    assume "\<exists>ts s1. MessageData_initialize data self = Inr (ts, s1) \<and>
            (self' = s1 \<or> self' = s1\<lparr>last_timestamp := ts\<rparr>)"
    then obtain ts s1 where i: "MessageData_initialize data self = Inr (ts, s1)"
      and s: "self' = s1 \<or> self' = s1\<lparr>last_timestamp := ts\<rparr>" by blast
    from MessageData_initialize_warned [OF assms(1), of data ts s1] i
    have "warned_once s1 \<and> missing_message_ids self \<subseteq> missing_message_ids s1" by blast
    with s show ?thesis by (auto simp: warned_once_def)
  next
    assume "MessageData_initialize data self = Inl (e, self')"
    with MessageData_initialize_warned [OF assms(1), of data _ self' e] show ?thesis by blast
  qed
next
  case False
  with assms show ?thesis
    unfolding read_file_data_message_def
    by (auto simp: warned_once_def split: sum.splits prod.splits if_splits)
qed

lemma warned_once_body:
  assumes inv: "warned_once self"
    and r: "read_file_data_body rt flt self = r" "r = Continue self' \<or> r = Break self' \<or> r = Raise e self'"
  shows "warned_once self' \<and> missing_message_ids self \<subseteq> missing_message_ids self'"
proof -
  from read_file_data_body_cases [OF r(1)]
  consider fh where "r = Raise StructError (self\<lparr>file_handle := fh\<rparr>)"
    | fh where "r = Break (self\<lparr>file_handle := fh\<rparr>)"
    | fh ty data where "r = read_file_data_message rt flt ty data (self\<lparr>file_handle := fh\<rparr>)"
    by blast
  then show ?thesis
  proof cases
    case 1
    with r(2) inv show ?thesis by auto
  next
    case 2
    with r(2) inv show ?thesis by auto
  next
    case 3
    with r(2) read_file_data_message_never_breaks
    have "r = Continue self' \<or> r = Raise e self'" by metis
    from warned_once_message [OF _ 3 [symmetric] this] inv show ?thesis by simp
  qed
qed

lemma convert_subscriptions_stdout:
  assumes "convert_subscriptions s = Inr s'"
  shows "stdout s' = stdout s"
  by (rule convert_subscriptions_rule [where P = "\<lambda>u. stdout u = stdout s", OF _ _ assms]) auto

lemma warned_once_data_section_start:
  assumes h: "read_file_header (ULog_new c) = Inr h"
    and d: "read_file_definitions_loop rt (h\<lparr>last_timestamp := start_timestamp h\<rparr>) = Inr d"
  shows "warned_once d"
  using read_file_definitions_loop_keeps [OF d] read_file_header_fresh [OF h]
  by (auto simp: warned_once_def)


text \<open>
  C4. Let a file be loaded, and let its data section, after any number of passes,
  stand before a complete data message whose message id has no subscription and
  is not in the filtered set. Then the pass goes on (nothing is raised); the
  timestamp of the record is 0; no buffer changes (the subscriptions are the
  same); the last timestamp is not altered; the warning for this id is printed in
  this pass exactly if it has not been printed before; and from then on the
  warning for this id stands exactly once in the output: after this pass, after
  any number of further passes, and in the object that the load returns.
\<close>

theorem missing_subscription_warned_once:
  assumes h: "read_file_header (ULog_new c) = Inr h"
    and d: "read_file_definitions_loop rt (h\<lparr>last_timestamp := start_timestamp h\<rparr>) = Inr d"
    and n: "data_passes rt flt n d = Some s"
    and at: "drop (pos (file_handle s)) (content (file_handle s)) = header @ payload @ rest"
    and hd: "MessageHeader_initialize header = Inr (length payload, MSG_TYPE_DATA)"
    and mid: "unpack_ushort (slice 0 2 payload) = Inr mid"
    and unknown: "map_of (subscriptions s) mid = None" "mid \<notin> filtered_message_ids s"
  shows "\<exists>s'. read_file_data_body rt flt s = Continue s' \<and>
              MessageData_initialize payload
                (s\<lparr>file_handle := file_handle s\<lparr>pos := pos (file_handle s) + 3 + length payload\<rparr>\<rparr>)
                = Inr (0, s') \<and>
              subscriptions s' = subscriptions s \<and>
              last_timestamp s' = last_timestamp s \<and>
              stdout s' = (if mid \<in> missing_message_ids s then stdout s
                           else stdout s @ [NoSubscriptionFound mid]) \<and>
              count_list (stdout s') (NoSubscriptionFound mid) = 1 \<and>
              (\<forall>k u. data_passes rt flt k s' = Some u \<longrightarrow>
                     count_list (stdout u) (NoSubscriptionFound mid) = 1) \<and>
              (\<forall>u. load_file rt c flt = Inr u \<longrightarrow>
                     count_list (stdout u) (NoSubscriptionFound mid) = 1)"
proof -
  let ?s2 = "s\<lparr>file_handle := file_handle s\<lparr>pos := pos (file_handle s) + 3 + length payload\<rparr>\<rparr>"
  let ?s' = "if mid \<in> missing_message_ids ?s2 then ?s2
             else ?s2\<lparr>missing_message_ids := insert mid (missing_message_ids ?s2),
                      stdout := stdout ?s2 @ [NoSubscriptionFound mid]\<rparr>"
  have ne: "MSG_TYPE_DATA \<noteq> MSG_TYPE_PARAMETER" "MSG_TYPE_DATA \<noteq> MSG_TYPE_ADD_LOGGED_MSG"
    "MSG_TYPE_DATA \<noteq> MSG_TYPE_LOGGING"
    by (simp_all add: MSG_TYPE_DATA_def MSG_TYPE_PARAMETER_def MSG_TYPE_ADD_LOGGED_MSG_def
          MSG_TYPE_LOGGING_def)
  have init: "MessageData_initialize payload ?s2 = Inr (0, ?s')"
    using MessageData_initialize_unknown [of payload mid ?s2] mid unknown by simp
  have body: "read_file_data_body rt flt s = Continue ?s'"
    unfolding read_file_data_body_complete [OF at hd]
    by (simp add: read_file_data_message_def ne init)
  have w0: "warned_once d" using warned_once_data_section_start [OF h d] .
  have ws: "warned_once s"
    by (rule data_passes_rule [where P = warned_once, OF _ w0 n])
       (use warned_once_body in blast)
  from warned_once_body [OF ws body] have ws': "warned_once ?s'" by blast
  have in': "mid \<in> missing_message_ids ?s'" by simp
  let ?P = "\<lambda>u. warned_once u \<and> mid \<in> missing_message_ids u"
  have step: "\<forall>u u'. ?P u \<longrightarrow> read_file_data_body rt flt u = Continue u' \<longrightarrow> ?P u'"
    using warned_once_body by blast
  have P_init: "?P ?s'" using ws' in' by blast
  have P_count: "count_list (stdout u) (NoSubscriptionFound mid) = 1" if "?P u" for u
    using that by (simp add: warned_once_def)
  have later: "\<forall>k u. data_passes rt flt k ?s' = Some u \<longrightarrow>
                     count_list (stdout u) (NoSubscriptionFound mid) = 1"
  proof (intro allI impI)
    fix k u assume p: "data_passes rt flt k ?s' = Some u"
    have "?P u"
      by (rule data_passes_rule [where P = ?P, OF step P_init p])
    then show "count_list (stdout u) (NoSubscriptionFound mid) = 1" by (rule P_count)
  qed
  have loop: "case read_file_data_loop rt flt ?s' of
           Continue u \<Rightarrow> False | Break u \<Rightarrow> ?P u | Raise e u \<Rightarrow> ?P u"
    by (rule read_file_data_loop_rule [where P = ?P, OF step _ _ P_init])
       (use warned_once_body in \<open>blast+\<close>)
  have loops: "read_file_data_loop rt flt d = read_file_data_loop rt flt ?s'"
    using read_file_data_loop_after_passes [OF n] body
    by (simp add: read_file_data_loop.simps [of rt flt s])
  have final: "\<forall>u. load_file rt c flt = Inr u \<longrightarrow>
                     count_list (stdout u) (NoSubscriptionFound mid) = 1"
  proof (intro allI impI)
    fix u assume "load_file rt c flt = Inr u"
    with h d have "read_file_data rt flt d = Inr u"
      by (simp add: load_file_def)
    then obtain v where v: "?P v" and c: "convert_subscriptions v = Inr u"
      using loop unfolding read_file_data_def loops
      by (auto split: control.splits if_splits)
    from convert_subscriptions_stdout [OF c] P_count [OF v]
    show "count_list (stdout u) (NoSubscriptionFound mid) = 1" by simp
  qed
  have "subscriptions ?s' = subscriptions s" "last_timestamp ?s' = last_timestamp s"
    "stdout ?s' = (if mid \<in> missing_message_ids s then stdout s
                           else stdout s @ [NoSubscriptionFound mid])"
    by simp_all
  moreover have "count_list (stdout ?s') (NoSubscriptionFound mid) = 1"
    using P_count [OF P_init] .
  ultimately show ?thesis using body init later final by blast
qed


text \<open>A file whose data section has a logging message and then two data records
  for the message id 7, which is never subscribed. The states: after the header,
  at the start of the data section, and after two passes (before the second
  record).\<close>

definition unknown_id_record :: bytes where
  "unknown_id_record =
     [CHR 0x07, CHR 0x00,
      CHR 0x09, CHR 0x09, CHR 0x00, CHR 0x00, CHR 0x00, CHR 0x00, CHR 0x00, CHR 0x00]"

definition unknown_id_file :: bytes where
  "unknown_id_file =
     example_header @
     message CHR ''L'' ([CHR ''6'', CHR 0x01, CHR 0x00, CHR 0x00, CHR 0x00, CHR 0x00, CHR 0x00,
                         CHR 0x00, CHR 0x00] @ ''hi'') @
     message CHR ''D'' unknown_id_record @
     message CHR ''D'' unknown_id_record"

definition unknown_id_header :: ULog where
  "unknown_id_header = projr (read_file_header (ULog_new unknown_id_file))"

definition unknown_id_start :: ULog where
  "unknown_id_start =
     projr (read_file_definitions_loop example_runtime
              (unknown_id_header\<lparr>last_timestamp := start_timestamp unknown_id_header\<rparr>))"

definition unknown_id_second :: ULog where
  "unknown_id_second = the (data_passes example_runtime None 2 unknown_id_start)"

theorem missing_subscription_warned_once_witness:
  "data_passes example_runtime None 2 unknown_id_start = Some unknown_id_second \<and>
   drop (pos (file_handle unknown_id_second)) (content (file_handle unknown_id_second)) =
     [CHR 0x0A, CHR 0x00, CHR ''D''] @ unknown_id_record @ [] \<and>
   map_of (subscriptions unknown_id_second) 7 = None \<and>
   7 \<notin> filtered_message_ids unknown_id_second \<and>
   stdout unknown_id_second = [NoSubscriptionFound 7] \<and>
   (\<exists>u. load_file example_runtime unknown_id_file None = Inr u \<and>
        count_list (stdout u) (NoSubscriptionFound 7) = 1)"
proof -
  have h: "read_file_header (ULog_new unknown_id_file) = Inr unknown_id_header"
    by code_simp
  have d: "read_file_definitions_loop example_runtime
             (unknown_id_header\<lparr>last_timestamp := start_timestamp unknown_id_header\<rparr>) =
           Inr unknown_id_start"
    by code_simp
  have n: "data_passes example_runtime None 2 unknown_id_start = Some unknown_id_second"
    by code_simp
  have at: "drop (pos (file_handle unknown_id_second)) (content (file_handle unknown_id_second)) =
     [CHR 0x0A, CHR 0x00, CHR ''D''] @ unknown_id_record @ []"
    by code_simp
  have hd: "MessageHeader_initialize [CHR 0x0A, CHR 0x00, CHR ''D''] =
              Inr (length unknown_id_record, MSG_TYPE_DATA)"
    by code_simp
  have mid: "unpack_ushort (slice 0 2 unknown_id_record) = Inr 7"
    by code_simp
  have u1: "map_of (subscriptions unknown_id_second) 7 = None"
    by code_simp
  have u2: "7 \<notin> filtered_message_ids unknown_id_second"
    by code_simp
  have out: "stdout unknown_id_second = [NoSubscriptionFound 7]"
    by code_simp
  have l: "\<not> isl (load_file example_runtime unknown_id_file None)"
    by code_simp
  then obtain u where u: "load_file example_runtime unknown_id_file None = Inr u"
    by (cases "load_file example_runtime unknown_id_file None") auto
  from missing_subscription_warned_once [OF h d n at hd mid u1 u2] u
  have "count_list (stdout u) (NoSubscriptionFound 7) = 1" by blast
  with n at u1 u2 out u show ?thesis by blast
qed

section \<open>The conversion into topics\<close>

text \<open>The buffer of a subscription holds a whole number of records of its dtype:
  the condition under which \<open>np_frombuffer\<close> does not raise.\<close>

definition whole_records :: "MessageAddLogged \<Rightarrow> bool" where
  "whole_records sub =
     (itemsize (dtype sub) \<noteq> 0 \<and> length (buffer sub) mod itemsize (dtype sub) = 0)"

lemma Data_init_whole_records:
  "whole_records sub \<Longrightarrow> \<exists>d. Data_init sub = Inr d"
  by (simp add: Data_init_def np_frombuffer_def whole_records_def)

lemma Data_init_not_whole_records:
  "\<not> whole_records sub \<Longrightarrow> Data_init sub = Inl ValueError"
  by (auto simp: Data_init_def np_frombuffer_def whole_records_def)

text \<open>The subscriptions that the conversion turns into topics, in the order in
  which it takes them.\<close>

definition to_convert :: "ULog \<Rightarrow> MessageAddLogged list" where
  "to_convert self = filter (\<lambda>sub. buffer sub \<noteq> []) (rev (map snd (subscriptions self)))"

lemma convert_subscriptions_whole:
  assumes "list_all whole_records (to_convert self)"
  shows "\<exists>u ds. convert_subscriptions self = Inr u \<and> subscriptions u = [] \<and>
                data_list u = data_list self @ ds \<and>
                map Inr ds = map Data_init (to_convert self)"
  using assms
proof (induction self rule: convert_subscriptions.induct)
  case (1 self)
  show ?case
  proof (cases "subscriptions self = []")
    case True
    then show ?thesis
      by (simp add: convert_subscriptions.simps [of self] to_convert_def)
  next
    case False
    note ne = this
    let ?msg = "snd (last (subscriptions self))"
    let ?self' = "self\<lparr>subscriptions := butlast (subscriptions self)\<rparr>"
    from ne have split: "subscriptions self = butlast (subscriptions self) @ [last (subscriptions self)]"
      by simp
    have tc: "to_convert self =
                (if buffer ?msg \<noteq> [] then [?msg] else []) @ to_convert ?self'"
      unfolding to_convert_def by (subst split) simp
    show ?thesis
    proof (cases "length (buffer ?msg) > 0")
      case True
      with tc "1.prems" have w: "whole_records ?msg" and rest: "list_all whole_records (to_convert ?self')"
        by simp_all
      from Data_init_whole_records [OF w] obtain d where d: "Data_init ?msg = Inr d" by blast
      let ?s2 = "?self'\<lparr>data_list := data_list ?self' @ [d]\<rparr>"
      have "to_convert ?s2 = to_convert ?self'" by (simp add: to_convert_def)
      with rest have "list_all whole_records (to_convert ?s2)" by simp
      from "1.IH"(1) [OF ne refl refl True d this]
      obtain u ds where u: "convert_subscriptions ?s2 = Inr u" "subscriptions u = []"
        "data_list u = data_list ?s2 @ ds" "map Inr ds = map Data_init (to_convert ?s2)"
        by blast
      have "convert_subscriptions self = Inr u"
        using ne True d u(1) by (simp add: convert_subscriptions.simps [of self] Let_def)
      moreover have "data_list u = data_list self @ (d # ds)" using u(3) by simp
      moreover have "map Inr (d # ds) = map Data_init (to_convert self)"
        using True d u(4) tc \<open>to_convert ?s2 = to_convert ?self'\<close> by simp
      ultimately show ?thesis using u(2) by blast
    next
      case False
      with tc "1.prems" have rest: "list_all whole_records (to_convert ?self')" by simp
      from "1.IH"(2) [OF ne refl refl False this]
      obtain u ds where u: "convert_subscriptions ?self' = Inr u" "subscriptions u = []"
        "data_list u = data_list ?self' @ ds" "map Inr ds = map Data_init (to_convert ?self')"
        by blast
      have "convert_subscriptions self = Inr u"
        using ne False u(1) by (simp add: convert_subscriptions.simps [of self] Let_def)
      moreover have "map Inr ds = map Data_init (to_convert self)" using False u(4) tc by simp
      ultimately show ?thesis using u(2,3) by auto
    qed
  qed
qed

lemma convert_subscriptions_not_whole:
  assumes "\<not> list_all whole_records (to_convert self)"
  shows "convert_subscriptions self = Inl ValueError"
  using assms
proof (induction self rule: convert_subscriptions.induct)
  case (1 self)
  show ?case
  proof (cases "subscriptions self = []")
    case True
    with "1.prems" show ?thesis by (simp add: to_convert_def)
  next
    case False
    note ne = this
    let ?msg = "snd (last (subscriptions self))"
    let ?self' = "self\<lparr>subscriptions := butlast (subscriptions self)\<rparr>"
    from ne have split: "subscriptions self = butlast (subscriptions self) @ [last (subscriptions self)]"
      by simp
    have tc: "to_convert self =
                (if buffer ?msg \<noteq> [] then [?msg] else []) @ to_convert ?self'"
      unfolding to_convert_def by (subst split) simp
    show ?thesis
    proof (cases "length (buffer ?msg) > 0")
      case True
      note nonempty = this
      show ?thesis
      proof (cases "whole_records ?msg")
        case True
        from Data_init_whole_records [OF True] obtain d where d: "Data_init ?msg = Inr d" by blast
        let ?s2 = "?self'\<lparr>data_list := data_list ?self' @ [d]\<rparr>"
        have "to_convert ?s2 = to_convert ?self'" by (simp add: to_convert_def)
        with tc "1.prems" True nonempty have "\<not> list_all whole_records (to_convert ?s2)" by simp
        from "1.IH"(1) [OF ne refl refl nonempty d this]
        show ?thesis
          using ne nonempty d by (simp add: convert_subscriptions.simps [of self] Let_def)
      next
        case False
        from Data_init_not_whole_records [OF False] ne nonempty show ?thesis
          by (simp add: convert_subscriptions.simps [of self] Let_def)
      qed
    next
      case False
      with tc "1.prems" have "\<not> list_all whole_records (to_convert ?self')" by simp
      from "1.IH"(2) [OF ne refl refl False this]
      show ?thesis
        using ne False by (simp add: convert_subscriptions.simps [of self] Let_def)
    qed
  qed
qed

lemma to_convert_file_handle [simp]:
  "to_convert (self\<lparr>file_handle := fh\<rparr>) = to_convert self"
  by (simp add: to_convert_def)


section \<open>A file truncated inside a message of the data section (C3)\<close>

text \<open>
  C3 (amended). Let the data section, after any number of passes, stand before a
  message header whose announced payload length exceeds the bytes that remain.
  Then the pass ends the loop by \<^verbatim>\<open>break\<close>: nothing is raised, no subscription
  and no buffer is changed by the truncated message, and the conversion into
  topics runs on the subscriptions as they are. If every non-empty buffer holds a
  whole number of records of its dtype, the data section returns normally, and the
  data list is extended by exactly one topic for every subscription with a
  non-empty buffer (taken from the one subscribed last to the one subscribed
  first), and no subscription is left. If some non-empty buffer does not,
  \<^verbatim>\<open>np.frombuffer\<close> raises \<^verbatim>\<open>ValueError\<close> out of the parse.
\<close>

theorem truncated_message_ends_data_section:
  assumes n: "data_passes rt flt n s0 = Some s"
    and at: "drop (pos (file_handle s)) (content (file_handle s)) = header @ partial"
    and hd: "MessageHeader_initialize header = Inr (msg_size, msg_type)"
    and short: "length partial < msg_size"
  shows "\<exists>s'. read_file_data_body rt flt s = Break s' \<and>
              read_file_data_loop rt flt s0 = Break s' \<and>
              s' = s\<lparr>file_handle := file_handle s\<lparr>pos := pos (file_handle s) + 3 + length partial\<rparr>\<rparr> \<and>
              read_file_data rt flt s0 = convert_subscriptions s' \<and>
              (list_all whole_records (to_convert s) \<longrightarrow>
                 (\<exists>u ds. read_file_data rt flt s0 = Inr u \<and> subscriptions u = [] \<and>
                          data_list u = data_list s @ ds \<and>
                          map Inr ds = map Data_init (to_convert s))) \<and>
              (\<not> list_all whole_records (to_convert s) \<longrightarrow>
                 read_file_data rt flt s0 = Inl ValueError)"
proof -
  let ?s' = "s\<lparr>file_handle := file_handle s\<lparr>pos := pos (file_handle s) + 3 + length partial\<rparr>\<rparr>"
  have body: "read_file_data_body rt flt s = Break ?s'"
    by (rule read_file_data_body_truncated [OF at hd short])
  have loop: "read_file_data_loop rt flt s0 = Break ?s'"
    using read_file_data_loop_after_passes [OF n] body
    by (simp add: read_file_data_loop.simps [of rt flt s])
  have rd: "read_file_data rt flt s0 = convert_subscriptions ?s'"
    by (simp add: read_file_data_def loop)
  have good: "\<exists>u ds. read_file_data rt flt s0 = Inr u \<and> subscriptions u = [] \<and>
                          data_list u = data_list s @ ds \<and>
                          map Inr ds = map Data_init (to_convert s)"
    if "list_all whole_records (to_convert s)"
    using convert_subscriptions_whole [of ?s'] that unfolding rd by simp
  have bad: "read_file_data rt flt s0 = Inl ValueError"
    if "\<not> list_all whole_records (to_convert s)"
    using convert_subscriptions_not_whole [of ?s'] that unfolding rd by simp
  from body loop rd good bad show ?thesis by blast
qed

text \<open>Two files that end inside a data message which announces 10 bytes of payload
  and has 1. Before it the first has a record of 8 bytes for the subscription to
  \<^verbatim>\<open>uint64_t timestamp\<close>; the second has a record of 9 bytes for it.\<close>

definition truncated_record_file :: bytes where
  "truncated_record_file =
     example_header @ add_timestamp_topic @
     message CHR ''D'' ([CHR 0x00, CHR 0x00,
                         CHR 0x05, CHR 0x03, CHR 0x00, CHR 0x00, CHR 0x00, CHR 0x00, CHR 0x00, CHR 0x00]) @
     [CHR 0x0A, CHR 0x00, CHR ''D'', CHR 0x00]"

definition odd_record_truncated_file :: bytes where
  "odd_record_truncated_file =
     example_header @ add_timestamp_topic @
     message CHR ''D'' ([CHR 0x00, CHR 0x00,
                         CHR 0x05, CHR 0x03, CHR 0x00, CHR 0x00, CHR 0x00, CHR 0x00, CHR 0x00, CHR 0x00,
                         CHR 0x2A]) @
     [CHR 0x0A, CHR 0x00, CHR ''D'', CHR 0x00]"

definition truncated_record_state :: ULog where
  "truncated_record_state =
     the (data_passes example_runtime None 2 (data_section_start example_runtime truncated_record_file))"

theorem truncated_message_ends_data_section_witness:
  "data_passes example_runtime None 2 (data_section_start example_runtime truncated_record_file) =
     Some truncated_record_state \<and>
   drop (pos (file_handle truncated_record_state)) (content (file_handle truncated_record_state)) =
     [CHR 0x0A, CHR 0x00, CHR ''D''] @ [CHR 0x00] \<and>
   MessageHeader_initialize [CHR 0x0A, CHR 0x00, CHR ''D''] = Inr (10, MSG_TYPE_DATA) \<and>
   list_all whole_records (to_convert truncated_record_state) \<and>
   (\<exists>u ds. read_file_data example_runtime None (data_section_start example_runtime truncated_record_file)
              = Inr u \<and>
           subscriptions u = [] \<and> data_list u = ds \<and>
           map Inr ds = map Data_init (to_convert truncated_record_state) \<and>
           length ds = 1)"
proof -
  have n: "data_passes example_runtime None 2 (data_section_start example_runtime truncated_record_file) =
     Some truncated_record_state"
    by code_simp
  have at: "drop (pos (file_handle truncated_record_state)) (content (file_handle truncated_record_state)) =
     [CHR 0x0A, CHR 0x00, CHR ''D''] @ [CHR 0x00]"
    by code_simp
  have hd: "MessageHeader_initialize [CHR 0x0A, CHR 0x00, CHR ''D''] = Inr (10, MSG_TYPE_DATA)"
    by code_simp
  have short: "length [CHR 0x00] < (10::nat)" by simp
  have w: "list_all whole_records (to_convert truncated_record_state)"
    by code_simp
  have dl: "data_list truncated_record_state = []"
    by code_simp
  have len: "length (to_convert truncated_record_state) = 1"
    by code_simp
  from truncated_message_ends_data_section [OF n at hd short] w
  obtain u ds where u: "read_file_data example_runtime None
                          (data_section_start example_runtime truncated_record_file) = Inr u"
    "subscriptions u = []" "data_list u = data_list truncated_record_state @ ds"
    "map Inr ds = map Data_init (to_convert truncated_record_state)"
    by blast
  from u(4) len have "length ds = 1" by (metis length_map)
  with n at hd w u dl show ?thesis by auto
qed

text \<open>
  The second file is truncated inside a data message as well, and the loop of
  its data section ends by \<^verbatim>\<open>break\<close> there; but the buffer of its subscription
  holds 9 bytes for records of 8 bytes, and the parse raises \<^verbatim>\<open>ValueError\<close>.
\<close>

theorem truncated_message_counterexample:
  "map_option (\<lambda>s. drop (pos (file_handle s)) (content (file_handle s)))
     (data_passes example_runtime None 2 (data_section_start example_runtime odd_record_truncated_file)) =
     Some [CHR 0x0A, CHR 0x00, CHR ''D'', CHR 0x00] \<and>
   (case read_file_data_loop example_runtime None
           (data_section_start example_runtime odd_record_truncated_file) of
      Break s \<Rightarrow> map (\<lambda>(k, sub). (k, length (buffer sub), itemsize (dtype sub))) (subscriptions s)
    | Continue s \<Rightarrow> []
    | Raise e s \<Rightarrow> []) = [(0, 9, 8)] \<and>
   load_file example_runtime odd_record_truncated_file None = Inl ValueError"
  by code_simp

section \<open>A data record too short for its timestamp (C10)\<close>

lemma slice_short:
  assumes "length xs < a + 8"
  shows "length (slice (int a) (int a + 8) xs) < 8"
  using assms by (auto simp: slice_def Let_def min_def)

lemma MessageData_initialize_short:
  assumes mid: "unpack_ushort (slice 0 2 data) = Inr mid"
    and sub: "map_of (subscriptions self) mid = Some sub"
    and short: "length data < timestamp_offset sub + 10"
  shows "MessageData_initialize data self =
           Inl (StructError,
                self\<lparr>subscriptions :=
                  AList.update mid (sub\<lparr>buffer := buffer sub @ drop 2 data\<rparr>) (subscriptions self)\<rparr>)"
proof -
  have "length (slice (int (timestamp_offset sub) + 2) (int (timestamp_offset sub) + 10) data) < 8"
    using slice_short [of data "timestamp_offset sub + 2"] short by (simp add: add.commute add.left_commute)
  then have "unpack_uint64 (slice (int (timestamp_offset sub) + 2) (int (timestamp_offset sub) + 10) data)
               = Inl StructError"
    by (simp add: unpack_uint64_def)
  then show ?thesis
    by (simp add: MessageData_initialize_def mid sub Let_def)
qed


text \<open>
  C10 (amended). Let the data section, after any number of passes, stand before a
  complete data message whose message id has a subscription and whose payload
  holds fewer than \<open>timestamp_offset + 10\<close> bytes. Then the bytes of the record
  are appended to the buffer of the subscription, unpacking the timestamp raises
  \<^verbatim>\<open>struct.error\<close>, and the loop of the data section ends with this exception:
  the rest of the file is not read. The handler swallows the exception, and the
  conversion into topics runs on the subscriptions, among them the one whose
  buffer holds the short record. If every non-empty buffer holds a whole number
  of records of its dtype, every subscription with a non-empty buffer becomes a
  topic of the result; if some non-empty buffer does not (as a rule the one with
  the short record), \<^verbatim>\<open>np.frombuffer\<close> raises \<^verbatim>\<open>ValueError\<close> out of the parse.
\<close>

theorem short_record_ends_data_section:
  assumes n: "data_passes rt flt n s0 = Some s"
    and at: "drop (pos (file_handle s)) (content (file_handle s)) = header @ payload @ rest"
    and hd: "MessageHeader_initialize header = Inr (length payload, MSG_TYPE_DATA)"
    and mid: "unpack_ushort (slice 0 2 payload) = Inr mid"
    and sub: "map_of (subscriptions s) mid = Some sub"
    and short: "length payload < timestamp_offset sub + 10"
  shows "\<exists>s'. read_file_data_body rt flt s = Raise StructError s' \<and>
              read_file_data_loop rt flt s0 = Raise StructError s' \<and>
              s' = s\<lparr>file_handle := file_handle s\<lparr>pos := pos (file_handle s) + 3 + length payload\<rparr>,
                     subscriptions :=
                       AList.update mid (sub\<lparr>buffer := buffer sub @ drop 2 payload\<rparr>) (subscriptions s)\<rparr> \<and>
              read_file_data rt flt s0 = convert_subscriptions s' \<and>
              (list_all whole_records (to_convert s') \<longrightarrow>
                 (\<exists>u ds. read_file_data rt flt s0 = Inr u \<and> subscriptions u = [] \<and>
                          data_list u = data_list s @ ds \<and>
                          map Inr ds = map Data_init (to_convert s'))) \<and>
              (\<not> list_all whole_records (to_convert s') \<longrightarrow>
                 read_file_data rt flt s0 = Inl ValueError)"
proof -
  let ?s2 = "s\<lparr>file_handle := file_handle s\<lparr>pos := pos (file_handle s) + 3 + length payload\<rparr>\<rparr>"
  let ?s' = "?s2\<lparr>subscriptions :=
               AList.update mid (sub\<lparr>buffer := buffer sub @ drop 2 payload\<rparr>) (subscriptions ?s2)\<rparr>"
  have ne: "MSG_TYPE_DATA \<noteq> MSG_TYPE_PARAMETER" "MSG_TYPE_DATA \<noteq> MSG_TYPE_ADD_LOGGED_MSG"
    "MSG_TYPE_DATA \<noteq> MSG_TYPE_LOGGING"
    by (simp_all add: MSG_TYPE_DATA_def MSG_TYPE_PARAMETER_def MSG_TYPE_ADD_LOGGED_MSG_def
          MSG_TYPE_LOGGING_def)
  have init: "MessageData_initialize payload ?s2 = Inl (StructError, ?s')"
    using MessageData_initialize_short [of payload mid ?s2 sub] mid sub short by simp
  have body: "read_file_data_body rt flt s = Raise StructError ?s'"
    unfolding read_file_data_body_complete [OF at hd]
    by (simp add: read_file_data_message_def ne init)
  have loop: "read_file_data_loop rt flt s0 = Raise StructError ?s'"
    using read_file_data_loop_after_passes [OF n] body
    by (simp add: read_file_data_loop.simps [of rt flt s])
  have rd: "read_file_data rt flt s0 = convert_subscriptions ?s'"
    by (simp add: read_file_data_def loop)
  have good: "\<exists>u ds. read_file_data rt flt s0 = Inr u \<and> subscriptions u = [] \<and>
                          data_list u = data_list s @ ds \<and>
                          map Inr ds = map Data_init (to_convert ?s')"
    if "list_all whole_records (to_convert ?s')"
    using convert_subscriptions_whole [of ?s'] that unfolding rd by simp
  have bad: "read_file_data rt flt s0 = Inl ValueError"
    if "\<not> list_all whole_records (to_convert ?s')"
    using convert_subscriptions_not_whole [of ?s'] that unfolding rd by simp
  have eq: "?s' = s\<lparr>file_handle := file_handle s\<lparr>pos := pos (file_handle s) + 3 + length payload\<rparr>,
                     subscriptions :=
                       AList.update mid (sub\<lparr>buffer := buffer sub @ drop 2 payload\<rparr>) (subscriptions s)\<rparr>"
    by simp
  from body loop rd good bad show ?thesis unfolding eq by blast
qed

text \<open>Two files with one subscription and data records for it. In the first the
  format has the only field \<^verbatim>\<open>uint8_t x\<close>: the timestamp offset is 1, and every
  record of 1 byte is short; the file has two of them. In the second the format is
  \<^verbatim>\<open>uint64_t timestamp\<close> and the record has 3 bytes.\<close>

definition no_timestamp_file :: bytes where
  "no_timestamp_file =
     example_header @
     message CHR ''F'' ''t:uint8_t x;'' @
     message CHR ''A'' ([CHR 0x00, CHR 0x00, CHR 0x00] @ ''t'') @
     message CHR ''D'' [CHR 0x00, CHR 0x00, CHR 0x2A] @
     message CHR ''D'' [CHR 0x00, CHR 0x00, CHR 0x2B]"

definition short_record_file :: bytes where
  "short_record_file =
     example_header @ add_timestamp_topic @
     message CHR ''D'' [CHR 0x00, CHR 0x00, CHR 0x05, CHR 0x03, CHR 0x00]"

definition no_timestamp_state :: ULog where
  "no_timestamp_state =
     the (data_passes example_runtime None 1 (data_section_start example_runtime no_timestamp_file))"

definition no_timestamp_subscription :: MessageAddLogged where
  "no_timestamp_subscription =
     \<lparr>multi_id = 0, msg_id = 0, message_name = ''t'',
      field_data = [\<lparr>field_name = ''x'', type_str = ''uint8_t''\<rparr>],
      timestamp_idx = -1, timestamp_offset = 1, buffer = [],
      dtype = [(''x'', np_uint8)]\<rparr>"

theorem short_record_ends_data_section_witness:
  "data_passes example_runtime None 1 (data_section_start example_runtime no_timestamp_file) =
     Some no_timestamp_state \<and>
   drop (pos (file_handle no_timestamp_state)) (content (file_handle no_timestamp_state)) =
     [CHR 0x03, CHR 0x00, CHR ''D''] @ [CHR 0x00, CHR 0x00, CHR 0x2A] @
     message CHR ''D'' [CHR 0x00, CHR 0x00, CHR 0x2B] \<and>
   map_of (subscriptions no_timestamp_state) 0 = Some no_timestamp_subscription \<and>
   length [CHR 0x00, CHR 0x00, CHR 0x2A] < timestamp_offset no_timestamp_subscription + 10 \<and>
   (\<exists>u. read_file_data example_runtime None (data_section_start example_runtime no_timestamp_file)
              = Inr u \<and>
        subscriptions u = [] \<and>
        map Inr (data_list u) =
          [Data_init (no_timestamp_subscription\<lparr>buffer := [CHR 0x2A]\<rparr>)])"
proof -
  have n: "data_passes example_runtime None 1 (data_section_start example_runtime no_timestamp_file) =
     Some no_timestamp_state"
    by code_simp
  have at: "drop (pos (file_handle no_timestamp_state)) (content (file_handle no_timestamp_state)) =
     [CHR 0x03, CHR 0x00, CHR ''D''] @ [CHR 0x00, CHR 0x00, CHR 0x2A] @
     message CHR ''D'' [CHR 0x00, CHR 0x00, CHR 0x2B]"
    by code_simp
  have hd: "MessageHeader_initialize [CHR 0x03, CHR 0x00, CHR ''D''] =
              Inr (length [CHR 0x00, CHR 0x00, CHR 0x2A], MSG_TYPE_DATA)"
    by code_simp
  have mid: "unpack_ushort (slice 0 2 [CHR 0x00, CHR 0x00, CHR 0x2A]) = Inr 0"
    by code_simp
  have sub: "map_of (subscriptions no_timestamp_state) 0 = Some no_timestamp_subscription"
    by code_simp
  have short: "length [CHR 0x00, CHR 0x00, CHR 0x2A] < timestamp_offset no_timestamp_subscription + 10"
    by (simp add: no_timestamp_subscription_def)
  have dl: "data_list no_timestamp_state = []"
    by code_simp
  let ?s' = "no_timestamp_state
     \<lparr>file_handle := file_handle no_timestamp_state
        \<lparr>pos := pos (file_handle no_timestamp_state) + 3 + length [CHR 0x00, CHR 0x00, CHR 0x2A]\<rparr>,
      subscriptions :=
        AList.update 0 (no_timestamp_subscription
                          \<lparr>buffer := buffer no_timestamp_subscription @ drop 2 [CHR 0x00, CHR 0x00, CHR 0x2A]\<rparr>)
          (subscriptions no_timestamp_state)\<rparr>"
  have tc: "to_convert ?s' = [no_timestamp_subscription\<lparr>buffer := [CHR 0x2A]\<rparr>]"
    by code_simp
  have w: "list_all whole_records (to_convert ?s')"
    unfolding tc by code_simp
  from short_record_ends_data_section [OF n at hd mid sub short] w
  obtain u ds where u: "read_file_data example_runtime None
                          (data_section_start example_runtime no_timestamp_file) = Inr u"
    "subscriptions u = []" "data_list u = data_list no_timestamp_state @ ds"
    "map Inr ds = map Data_init (to_convert ?s')"
    by blast
  from u(3,4) dl tc
  have m: "map Inr (data_list u) = [Data_init (no_timestamp_subscription\<lparr>buffer := [CHR 0x2A]\<rparr>)]"
    by simp
  have e: "\<exists>u. read_file_data example_runtime None (data_section_start example_runtime no_timestamp_file)
              = Inr u \<and>
        subscriptions u = [] \<and>
        map Inr (data_list u) =
          [Data_init (no_timestamp_subscription\<lparr>buffer := [CHR 0x2A]\<rparr>)]"
    by (intro exI [of _ u] conjI u(1) u(2) m)
  show ?thesis by (intro conjI n at sub short e)
qed

text \<open>
  In the second file the short record of 3 bytes is appended to the buffer of the
  subscription, the loop ends with \<^verbatim>\<open>struct.error\<close>, and the conversion of
  these 3 bytes into records of 8 bytes raises \<^verbatim>\<open>ValueError\<close>: the buffer with
  the short record is not materialized, and the parse fails.
\<close>

theorem short_record_counterexample:
  "(case read_file_data_loop example_runtime None
           (data_section_start example_runtime short_record_file) of
      Raise e s \<Rightarrow>
        (if e = StructError
         then map (\<lambda>(k, sub). (k, timestamp_offset sub, length (buffer sub), itemsize (dtype sub)))
                (subscriptions s)
         else [])
    | Continue s \<Rightarrow> []
    | Break s \<Rightarrow> []) = [(0, 0, 3, 8)] \<and>
   load_file example_runtime short_record_file None = Inl ValueError"
  by code_simp

end
